theory Spec2Isabelle
  imports Main "HOL-Library.Sublist" "HOL-Library.AList"
begin

section \<open>Strings and paths\<close>

text \<open>
  Strings are lists of characters.  The three string tests the organizer uses are those of
  Python's \<^verbatim>\<open>str\<close>: \<^verbatim>\<open>s.startswith(t)\<close>, \<^verbatim>\<open>s.endswith(t)\<close> and \<^verbatim>\<open>t in s\<close>
  (a contiguous occurrence).
\<close>

definition startswith :: "string \<Rightarrow> string \<Rightarrow> bool" where
  "startswith s t = prefix t s"

definition endswith :: "string \<Rightarrow> string \<Rightarrow> bool" where
  "endswith s t = suffix t s"

definition contains :: "string \<Rightarrow> string \<Rightarrow> bool" where
  \<comment> \<open>\<^verbatim>\<open>t in s\<close>\<close>
  "contains s t = sublist t s"

text \<open>
  \<^verbatim>\<open>str.lower()\<close> is Python's, and it knows all of Unicode.  It is a parameter of the
  model: \<^verbatim>\<open>get_category\<close> takes the lowercase function, and a configuration carries it
  (\<open>str_lower\<close>).  On a string of ASCII characters \<^verbatim>\<open>str.lower()\<close> moves the letters
  \<^verbatim>\<open>A\<close> to \<^verbatim>\<open>Z\<close> (codes 65 to 90) to \<^verbatim>\<open>a\<close> to \<^verbatim>\<open>z\<close> and leaves every other
  character; \<open>ascii_lower\<close> is that function, for the examples, whose names are all ASCII.
\<close>

definition lower_char :: "char \<Rightarrow> char" where
  "lower_char c =
     (let n = (of_char c :: nat) in if 65 \<le> n \<and> n \<le> 90 then char_of (n + 32) else c)"

definition ascii_lower :: "string \<Rightarrow> string" where
  "ascii_lower s = map lower_char s"

text \<open>The decimal rendering of a counter, as \<^verbatim>\<open>f"{counter}"\<close> prints it.\<close>

fun dec :: "nat \<Rightarrow> string" where
  "dec n = (if n < 10 then [char_of (48 + n)] else dec (n div 10) @ [char_of (48 + n mod 10)])"

declare dec.simps [simp del]

text \<open>
  A path is the list of its components below the filesystem root; \<^verbatim>\<open>p / name\<close> appends a
  component, \<^verbatim>\<open>p.parent\<close> drops the last one (the root is its own parent) and
  \<^verbatim>\<open>p.name\<close> is the last one.
\<close>

type_synonym path = "string list"

definition parent :: "path \<Rightarrow> path" where
  "parent p = butlast p"

definition name :: "path \<Rightarrow> string" where
  "name p = (if p = [] then [] else last p)"

text \<open>
  \<^verbatim>\<open>str.rfind('.')\<close>: the index of the last dot, or \<open>-1\<close>.  \<^verbatim>\<open>suffix\<close> and
  \<^verbatim>\<open>stem\<close> are pathlib's: the name is cut at its last dot unless that dot is the first or
  the last character.
\<close>

fun rfind_dot :: "string \<Rightarrow> int" where
  "rfind_dot [] = - 1"
| "rfind_dot (c # cs) =
     (let r = rfind_dot cs in if 0 \<le> r then r + 1 else if c = CHR ''.'' then 0 else - 1)"

definition suffix_of :: "path \<Rightarrow> string" where
  "suffix_of p =
     (let n = name p; i = rfind_dot n
      in if 0 < i \<and> i < int (length n) - 1 then drop (nat i) n else [])"

definition stem :: "path \<Rightarrow> string" where
  "stem p =
     (let n = name p; i = rfind_dot n
      in if 0 < i \<and> i < int (length n) - 1 then take (nat i) n else n)"

definition relative_to :: "path \<Rightarrow> path \<Rightarrow> path option" where
  \<comment> \<open>\<^verbatim>\<open>p.relative_to(d)\<close>; \<open>None\<close> stands for the \<^verbatim>\<open>ValueError\<close>\<close>
  "relative_to p d = (if prefix d p then Some (drop (length d) p) else None)"

section \<open>Category resolution and ignore patterns\<close>

text \<open>
  A category map is a Python dictionary from category names to lists of extensions.  Its
  iteration order matters, so it is an association list, in insertion order.
\<close>

type_synonym category_map = "(string \<times> string list) list"

definition DEFAULT_CATEGORIES :: category_map where
  "DEFAULT_CATEGORIES =
    [(''Images'', [''.jpg'', ''.jpeg'', ''.png'', ''.gif'', ''.bmp'', ''.svg'', ''.webp'', ''.ico'', ''.tiff'']),
     (''Documents'', [''.pdf'', ''.doc'', ''.docx'', ''.txt'', ''.xlsx'', ''.xls'', ''.pptx'', ''.ppt'', ''.odt'', ''.rtf'']),
     (''Videos'', [''.mp4'', ''.avi'', ''.mkv'', ''.mov'', ''.flv'', ''.wmv'', ''.webm'', ''.m4v'']),
     (''Audio'', [''.mp3'', ''.wav'', ''.flac'', ''.aac'', ''.ogg'', ''.wma'', ''.m4a'']),
     (''Archives'', [''.zip'', ''.rar'', ''.7z'', ''.tar'', ''.gz'', ''.bz2'', ''.xz'']),
     (''Code'', [''.py'', ''.js'', ''.html'', ''.css'', ''.java'', ''.cpp'', ''.c'', ''.h'', ''.json'', ''.xml'', ''.yaml'', ''.yml'']),
     (''Executables'', [''.exe'', ''.msi'', ''.dmg'', ''.pkg'', ''.deb'', ''.rpm'', ''.app'']),
     (''Books'', [''.epub'', ''.mobi'', ''.azw'', ''.azw3''])]"

text \<open>
  \<^verbatim>\<open>get_category\<close>: the loop over \<^verbatim>\<open>self.categories.items()\<close>, returning at the first
  category whose list holds the lowercased extension; \<open>lw\<close> is \<^verbatim>\<open>str.lower\<close>.
\<close>

fun get_category :: "(string \<Rightarrow> string) \<Rightarrow> category_map \<Rightarrow> string \<Rightarrow> string" where
  "get_category lw [] file_extension = ''Others''"
| "get_category lw ((category, extensions) # rest) file_extension =
     (if lw file_extension \<in> set extensions then category
      else get_category lw rest file_extension)"

text \<open>
  \<^verbatim>\<open>should_ignore\<close>: the loop over the patterns with its \<^verbatim>\<open>if\<close>/\<^verbatim>\<open>elif\<close> chain;
  \<^verbatim>\<open>pattern[1:]\<close> is \<open>drop 1\<close> and \<^verbatim>\<open>pattern[:-1]\<close> is \<open>butlast\<close>.
\<close>

fun ignore_loop :: "string list \<Rightarrow> string \<Rightarrow> bool" where
  "ignore_loop [] file_name = False"
| "ignore_loop (pattern # rest) file_name =
     (if startswith pattern ''*'' then
        (if endswith file_name (drop 1 pattern) then True else ignore_loop rest file_name)
      else if endswith pattern ''*'' then
        (if startswith file_name (butlast pattern) then True else ignore_loop rest file_name)
      else if contains file_name pattern then True
      else ignore_loop rest file_name)"

definition shouldIgnore :: "string \<Rightarrow> string list \<Rightarrow> bool" where
  "shouldIgnore file_name patterns = ignore_loop patterns file_name"

text \<open>
  The three kinds of match as the specification words them, to compare the loop with:
  a leading star asks for the rest of the pattern at the end of the name, otherwise a
  trailing star asks for the rest at the start, otherwise the pattern occurs in the name.
\<close>

definition pattern_matches :: "string \<Rightarrow> string \<Rightarrow> bool" where
  "pattern_matches pattern file_name =
     (if prefix ''*'' pattern then suffix (drop 1 pattern) file_name
      else if suffix ''*'' pattern then prefix (butlast pattern) file_name
      else sublist pattern file_name)"

text \<open>
  A stored extension holds an uppercase letter when lowering changes it.  A map is
  lowercase when no stored extension does (the invariant the specification gives a
  category map); \<open>drop_uppercase\<close> is the map without the entries that do.
\<close>

definition lowercase_map :: "(string \<Rightarrow> string) \<Rightarrow> category_map \<Rightarrow> bool" where
  "lowercase_map lw cats = list_all (\<lambda>(c, es). list_all (\<lambda>e. lw e = e) es) cats"

definition drop_uppercase :: "(string \<Rightarrow> string) \<Rightarrow> category_map \<Rightarrow> category_map" where
  "drop_uppercase lw cats = map (\<lambda>(c, es). (c, filter (\<lambda>e. lw e = e) es)) cats"

section \<open>Decimal counters are distinct\<close>

lemma dec_nonempty: "dec n \<noteq> []"
  by (subst dec.simps) simp

lemma digit_inj: "a < 10 \<Longrightarrow> b < 10 \<Longrightarrow> char_of (48 + a :: nat) = char_of (48 + b) \<Longrightarrow> a = b"
proof -
  assume a: "a < 10" and b: "b < 10" and e: "char_of (48 + a) = char_of (48 + b)"
  from e have "(of_char (char_of (48 + a)) :: nat) = of_char (char_of (48 + b))" by simp
  with a b show "a = b" by simp
qed

lemma dec_inj: "dec n = dec m \<Longrightarrow> n = m"
proof (induction n arbitrary: m rule: dec.induct)
  case (1 n)
  show ?case
  proof (cases "n < 10")
    case True
    show ?thesis
    proof (cases "m < 10")
      case mt: True
      from "1.prems" True mt have "char_of (48 + n) = char_of (48 + m)"
        by (simp add: dec.simps [of n] dec.simps [of m])
      with True mt show ?thesis using digit_inj [of n m] by blast
    next
      case False
      with "1.prems" True dec_nonempty [of "m div 10"] show ?thesis
        by (simp add: dec.simps [of n] dec.simps [of m])
    qed
  next
    case False
    show ?thesis
    proof (cases "m < 10")
      case True
      with "1.prems" False dec_nonempty [of "n div 10"] show ?thesis
        by (simp add: dec.simps [of n] dec.simps [of m])
    next
      case mf: False
      from "1.prems" False mf have e: "dec (n div 10) = dec (m div 10)"
        and d: "char_of (48 + n mod 10) = char_of (48 + m mod 10)"
        by (simp_all add: dec.simps [of n] dec.simps [of m])
      from "1.IH" [OF False e] have "n div 10 = m div 10" .
      moreover from d have "n mod 10 = m mod 10"
        using digit_inj [of "n mod 10" "m mod 10"] by simp
      ultimately show ?thesis by (metis div_mult_mod_eq)
    qed
  qed
qed

section \<open>The filesystem\<close>

text \<open>
  The organizer works on the filesystem through \<^verbatim>\<open>pathlib\<close>, \<^verbatim>\<open>shutil\<close> and
  \<^verbatim>\<open>json\<close>.  The model keeps what these calls decide in the program: which paths
  exist, which are directories, the order a directory is listed in, and which calls
  raise.  The exceptions are Python's; \<open>DirectoryNotEmpty\<close> and \<open>InvalidArgument\<close> are
  the \<^verbatim>\<open>OSError\<close>s of \<^verbatim>\<open>rmdir\<close> and \<^verbatim>\<open>rename\<close>, \<open>ShutilError\<close> is
  \<^verbatim>\<open>shutil.Error\<close>.
\<close>

datatype exn =
    PermissionError | FileExistsError | FileNotFoundError | NotADirectoryError
  | IsADirectoryError | DirectoryNotEmpty | InvalidArgument | ShutilError | JSONDecodeError

text \<open>
  A record of the log, as \<^verbatim>\<open>organize_file\<close> appends it; the time is a reading of a
  clock.  A file holds plain data or a log as \<^verbatim>\<open>save_log\<close> writes it (its time and its
  records); \<^verbatim>\<open>json.load\<close> of plain data raises.
\<close>

record operation_record =
  old_path :: path
  new_path :: path
  timestamp :: nat

datatype content = Data string | LogJson nat "operation_record list"

text \<open>
  A filesystem lists its nodes by path, in the order the platform enumerates them
  (\<^verbatim>\<open>iterdir\<close> returns the children of a directory in that order), together with
  the calls the platform refuses for want of permission.  Symbolic links are left out.
  A single call of the operating system that raises changes nothing; a library function
  made of several calls keeps what its earlier calls did.
\<close>

datatype node = File content | Dir

datatype fsop =
    ListDir path | MkDir path | Move path path | RmDir path | Unlink path
  | WriteFile path | ReadFile path

record filesystem =
  nodes :: "(path \<times> node) list"
  denied :: "fsop list"

text \<open>\<^verbatim>\<open>Path.exists\<close>, \<^verbatim>\<open>Path.is_dir\<close> and \<^verbatim>\<open>Path.iterdir\<close>.\<close>

definition lookup :: "filesystem \<Rightarrow> path \<Rightarrow> node option" where
  "lookup fs p = map_of (nodes fs) p"

definition path_exists :: "filesystem \<Rightarrow> path \<Rightarrow> bool" where
  "path_exists fs p = (lookup fs p \<noteq> None)"

definition is_dir :: "filesystem \<Rightarrow> path \<Rightarrow> bool" where
  "is_dir fs p = (lookup fs p = Some Dir)"

definition children :: "filesystem \<Rightarrow> path \<Rightarrow> path list" where
  "children fs d = filter (\<lambda>p. p \<noteq> [] \<and> butlast p = d) (map fst (nodes fs))"

definition iterdir :: "filesystem \<Rightarrow> path \<Rightarrow> exn + path list" where
  "iterdir fs d =
     (if \<not> path_exists fs d then Inl FileNotFoundError
      else if \<not> is_dir fs d then Inl NotADirectoryError
      else if ListDir d \<in> set (denied fs) then Inl PermissionError
      else Inr (children fs d))"

text \<open>
  \<^verbatim>\<open>Path.mkdir(parents, exist_ok=True)\<close> as pathlib writes it: \<^verbatim>\<open>os.mkdir\<close> first;
  on \<^verbatim>\<open>FileNotFoundError\<close> the parents are made and the call repeated without
  \<^verbatim>\<open>parents\<close>; any other error is dropped when the path is a directory already.  The
  result is the exception, if one escapes, and the filesystem reached (parents made
  before a failure stay).
\<close>

definition os_mkdir :: "filesystem \<Rightarrow> path \<Rightarrow> exn + filesystem" where
  "os_mkdir fs p =
     (if path_exists fs p then Inl FileExistsError
      else if \<not> path_exists fs (parent p) then Inl FileNotFoundError
      else if \<not> is_dir fs (parent p) then Inl NotADirectoryError
      else if MkDir p \<in> set (denied fs) then Inl PermissionError
      else Inr (fs\<lparr>nodes := nodes fs @ [(p, Dir)]\<rparr>))"

function mkdir :: "bool \<Rightarrow> filesystem \<Rightarrow> path \<Rightarrow> exn option \<times> filesystem" where
  "mkdir parents fs p =
     (case os_mkdir fs p of
        Inr fs' \<Rightarrow> (None, fs')
      | Inl e \<Rightarrow>
          if e = FileNotFoundError then
            (if \<not> parents \<or> parent p = p then (Some e, fs)
             else (let r = mkdir True fs (parent p) :: exn option \<times> filesystem
                   in if fst r \<noteq> None then r else mkdir False (snd r) p))
          else if is_dir fs p then (None, fs)
          else (Some e, fs))"
  by pat_completeness auto
termination
proof (relation "measures [\<lambda>(parents, fs, p). length p, \<lambda>(parents, fs, p). if parents then 1 else 0]")
  show "wf (measures [\<lambda>(parents, fs, p). length p, \<lambda>(parents, fs, p). if parents then 1 else 0])"
    by simp
next
  fix parents :: bool and fs :: filesystem and p :: path and e
  assume "\<not> (\<not> parents \<or> parent p = p)"
  then have "p \<noteq> []" by (auto simp: parent_def)
  then show "((True, fs, parent p), parents, fs, p)
       \<in> measures [\<lambda>(parents, fs, p). length p, \<lambda>(parents, fs, p). if parents then 1 else 0]"
    by (simp add: parent_def)
next
  fix parents :: bool and fs :: filesystem and p :: path and e
    and r :: "exn option \<times> filesystem"
  assume "\<not> (\<not> parents \<or> parent p = p)"
  then show "((False, snd r, p), parents, fs, p)
       \<in> measures [\<lambda>(parents, fs, p). length p, \<lambda>(parents, fs, p). if parents then 1 else 0]"
    by simp
qed

declare mkdir.simps [simp del]

text \<open>
  \<^verbatim>\<open>os.rename\<close>.  A file replaces a file at the destination; a directory moves with
  all below it.
\<close>

definition rename_subtree :: "path \<Rightarrow> path \<Rightarrow> (path \<times> node) list \<Rightarrow> (path \<times> node) list" where
  "rename_subtree src dst al =
     map (\<lambda>(p, n). (if prefix src p then dst @ drop (length src) p else p, n)) al"

definition os_rename :: "filesystem \<Rightarrow> path \<Rightarrow> path \<Rightarrow> exn + filesystem" where
  "os_rename fs src dst =
     (case lookup fs src of
        None \<Rightarrow> Inl FileNotFoundError
      | Some n \<Rightarrow>
          if \<not> path_exists fs (parent dst) then Inl FileNotFoundError
          else if \<not> is_dir fs (parent dst) then Inl NotADirectoryError
          else if Move src dst \<in> set (denied fs) then Inl PermissionError
          else if src = dst then Inr fs
          else (case n of
                  File c \<Rightarrow>
                    if is_dir fs dst then Inl IsADirectoryError
                    else Inr (fs\<lparr>nodes := AList.update dst (File c) (AList.delete src (nodes fs))\<rparr>)
                | Dir \<Rightarrow>
                    if prefix src dst then Inl InvalidArgument
                    else if path_exists fs dst \<and> \<not> is_dir fs dst then Inl NotADirectoryError
                    else if children fs dst \<noteq> [] then Inl DirectoryNotEmpty
                    else Inr (fs\<lparr>nodes := rename_subtree src dst (AList.delete dst (nodes fs))\<rparr>)))"

text \<open>
  \<^verbatim>\<open>Path.unlink\<close>, \<^verbatim>\<open>Path.rmdir\<close>, writing a file opened with mode \<^verbatim>\<open>w\<close>, and
  reading one.
\<close>

definition unlink :: "filesystem \<Rightarrow> path \<Rightarrow> exn + filesystem" where
  "unlink fs p =
     (case lookup fs p of
        None \<Rightarrow> Inl FileNotFoundError
      | Some Dir \<Rightarrow> Inl IsADirectoryError
      | Some (File c) \<Rightarrow>
          if Unlink p \<in> set (denied fs) then Inl PermissionError
          else Inr (fs\<lparr>nodes := AList.delete p (nodes fs)\<rparr>))"

definition rmdir :: "filesystem \<Rightarrow> path \<Rightarrow> exn + filesystem" where
  "rmdir fs p =
     (case lookup fs p of
        None \<Rightarrow> Inl FileNotFoundError
      | Some (File c) \<Rightarrow> Inl NotADirectoryError
      | Some Dir \<Rightarrow>
          if children fs p \<noteq> [] then Inl DirectoryNotEmpty
          else if RmDir p \<in> set (denied fs) then Inl PermissionError
          else Inr (fs\<lparr>nodes := AList.delete p (nodes fs)\<rparr>))"

definition write_file :: "filesystem \<Rightarrow> path \<Rightarrow> content \<Rightarrow> exn + filesystem" where
  "write_file fs p c =
     (if is_dir fs p then Inl IsADirectoryError
      else if \<not> path_exists fs (parent p) then Inl FileNotFoundError
      else if \<not> is_dir fs (parent p) then Inl NotADirectoryError
      else if WriteFile p \<in> set (denied fs) then Inl PermissionError
      else Inr (fs\<lparr>nodes := AList.update p (File c) (nodes fs)\<rparr>))"

definition read_file :: "filesystem \<Rightarrow> path \<Rightarrow> exn + content" where
  "read_file fs p =
     (case lookup fs p of
        None \<Rightarrow> Inl FileNotFoundError
      | Some Dir \<Rightarrow> Inl IsADirectoryError
      | Some (File c) \<Rightarrow> if ReadFile p \<in> set (denied fs) then Inl PermissionError else Inr c)"

text \<open>
  \<^verbatim>\<open>shutil.move\<close>, as the library writes it.  A destination that is a directory takes
  the source inside it, under the source's own name, and that name must be free there.
  The move is a rename; when the rename raises, a file is copied to the destination
  (\<^verbatim>\<open>copy2\<close>) and then deleted at the source, and a directory is copied with all below
  it (\<^verbatim>\<open>copytree\<close>) and then removed (\<^verbatim>\<open>rmtree\<close>).  So a move that raises may
  have left a copy at the destination.  The result is the exception, if one escapes, and
  the filesystem reached.

  \<^verbatim>\<open>copy2\<close> reads the source and writes the destination.
\<close>

definition copy2 :: "filesystem \<Rightarrow> path \<Rightarrow> path \<Rightarrow> exn + filesystem" where
  "copy2 fs src dst =
     (let target = (if is_dir fs dst then dst @ [name src] else dst)
      in if path_exists fs src \<and> src = target then Inl ShutilError
         else (case read_file fs src of
                 Inl e \<Rightarrow> Inl e
               | Inr c \<Rightarrow> write_file fs target c))"

text \<open>
  \<^verbatim>\<open>os.makedirs\<close> makes the missing parents, then the directory itself, which must not
  exist.
\<close>

function makedirs :: "filesystem \<Rightarrow> path \<Rightarrow> exn option \<times> filesystem" where
  "makedirs fs p =
     (let made = (if p \<noteq> [] \<and> \<not> path_exists fs (parent p) then makedirs fs (parent p)
                  else (None, fs))
      in if fst made \<noteq> None \<and> fst made \<noteq> Some FileExistsError then made
         else (case os_mkdir (snd made) p of
                 Inl e \<Rightarrow> (Some e, snd made)
               | Inr fs' \<Rightarrow> (None, fs')))"
  by pat_completeness auto
termination
  by (relation "measure (\<lambda>(fs, p). length p)") (auto simp: parent_def)

declare makedirs.simps [simp del]

text \<open>
  \<^verbatim>\<open>copytree\<close> lists the source, makes the destination and copies what is below the
  source, each node to the same place below the destination.  A node is reached when it
  can be copied itself (a directory: listed and made; a file: read and written) and every
  directory between the source and it can; what is refused is left out, and the call
  raises at its end if anything was.
\<close>

definition retarget :: "path \<Rightarrow> path \<Rightarrow> path \<Rightarrow> path" where
  "retarget src dst p = dst @ drop (length src) p"

definition node_copies :: "filesystem \<Rightarrow> path \<Rightarrow> path \<Rightarrow> path \<times> node \<Rightarrow> bool" where
  "node_copies fs src dst pn =
     (case snd pn of
        Dir \<Rightarrow> ListDir (fst pn) \<notin> set (denied fs)
                 \<and> MkDir (retarget src dst (fst pn)) \<notin> set (denied fs)
      | File c \<Rightarrow> ReadFile (fst pn) \<notin> set (denied fs)
                 \<and> WriteFile (retarget src dst (fst pn)) \<notin> set (denied fs))"

definition reached :: "filesystem \<Rightarrow> path \<Rightarrow> path \<Rightarrow> path \<times> node \<Rightarrow> bool" where
  "reached fs src dst pn =
     (node_copies fs src dst pn
      \<and> list_all (\<lambda>d. strict_prefix src d \<and> d \<noteq> fst pn \<longrightarrow>
                        is_dir fs d \<and> node_copies fs src dst (d, Dir))
           (prefixes (fst pn)))"

definition copytree :: "filesystem \<Rightarrow> path \<Rightarrow> path \<Rightarrow> exn option \<times> filesystem" where
  "copytree fs src dst =
     (if ListDir src \<in> set (denied fs) then (Some PermissionError, fs)
      else (let made = makedirs fs dst
            in if fst made \<noteq> None then made
               else (let below = filter (\<lambda>pn. strict_prefix src (fst pn)) (nodes fs);
                         copied = filter (reached fs src dst) below;
                         fs' = (snd made)\<lparr>nodes := nodes (snd made)
                                  @ map (\<lambda>pn. (retarget src dst (fst pn), snd pn)) copied\<rparr>
                     in (if length copied < length below then Some ShutilError else None, fs'))))"

text \<open>
  \<^verbatim>\<open>rmtree\<close> walks the tree depth first: it lists a directory, deletes its files and
  removes its directories in the order listed, then removes the directory.  It stops at
  the first call that is refused; what was removed before stays removed.
\<close>

definition depth :: "filesystem \<Rightarrow> nat" where
  "depth fs = Max (set (0 # map (\<lambda>pn. length (fst pn)) (nodes fs)))"

lemma children_deeper: "c \<in> set (children fs p) \<Longrightarrow> length p < length c \<and> length c \<le> depth fs"
proof -
  assume "c \<in> set (children fs p)"
  then have c: "c \<noteq> []" "butlast c = p" "c \<in> fst ` set (nodes fs)"
    by (auto simp: children_def)
  then have "length c \<in> set (0 # map (\<lambda>pn. length (fst pn)) (nodes fs))" by auto
  then have "length c \<le> depth fs" unfolding depth_def by (intro Max_ge) auto
  moreover from c have "length p < length c" by (cases c rule: rev_cases) auto
  ultimately show ?thesis by simp
qed

function rm_order :: "filesystem \<Rightarrow> path \<Rightarrow> fsop list" where
  "rm_order fs p =
     ListDir p
       # concat (map (\<lambda>c. if is_dir fs c then rm_order fs c else [Unlink c]) (children fs p))
       @ [RmDir p]"
  by pat_completeness auto
termination
  by (relation "measure (\<lambda>(fs, p). Suc (depth fs) - length p)")
     (auto dest!: children_deeper)

declare rm_order.simps [simp del]

fun removed_path :: "fsop \<Rightarrow> path option" where
  "removed_path (Unlink p) = Some p"
| "removed_path (RmDir p) = Some p"
| "removed_path other = None"

definition rmtree :: "filesystem \<Rightarrow> path \<Rightarrow> exn option \<times> filesystem" where
  "rmtree fs p =
     (let calls = rm_order fs p;
          allowed = takeWhile (\<lambda>call. call \<notin> set (denied fs)) calls;
          gone = map removed_path allowed
      in (if length allowed < length calls then Some PermissionError else None,
          fs\<lparr>nodes := filter (\<lambda>pn. Some (fst pn) \<notin> set gone) (nodes fs)\<rparr>))"

text \<open>The move itself.\<close>

definition shutil_move :: "filesystem \<Rightarrow> path \<Rightarrow> path \<Rightarrow> exn option \<times> filesystem" where
  "shutil_move fs src dst =
     (if is_dir fs dst \<and> src = dst then
        (case os_rename fs src dst of Inl e \<Rightarrow> (Some e, fs) | Inr fs' \<Rightarrow> (None, fs'))
      else (let real_dst = (if is_dir fs dst then dst @ [name src] else dst)
            in if is_dir fs dst \<and> path_exists fs real_dst then (Some ShutilError, fs)
               else (case os_rename fs src real_dst of
                       Inr fs' \<Rightarrow> (None, fs')
                     | Inl e \<Rightarrow>
                         if is_dir fs src then
                           (if prefix src dst then (Some ShutilError, fs)
                            else (let copied = copytree fs src real_dst
                                  in if fst copied \<noteq> None then copied
                                     else rmtree (snd copied) src))
                         else (case copy2 fs src real_dst of
                                 Inl e' \<Rightarrow> (Some e', fs)
                               | Inr fs1 \<Rightarrow>
                                   (case unlink fs1 src of
                                      Inl e' \<Rightarrow> (Some e', fs1)
                                    | Inr fs2 \<Rightarrow> (None, fs2))))))"

text \<open>
  The loop of \<^verbatim>\<open>organize_file\<close> that settles the destination:
  \<^verbatim>\<open>while new_file_path.exists(): new_file_path = category_path / f"{stem}_{counter}{ext}"; counter += 1\<close>.
  It ends on every filesystem: the names of distinct counters are distinct and the
  filesystem holds finitely many paths.
\<close>

definition candidate :: "path \<Rightarrow> string \<Rightarrow> string \<Rightarrow> nat \<Rightarrow> path" where
  "candidate category_path original_stem file_extension counter =
     category_path @ [original_stem @ ''_'' @ dec counter @ file_extension]"

lemma candidate_inj: "candidate cp s e k = candidate cp s e k' \<Longrightarrow> k = k'"
  by (simp add: candidate_def dec_inj)

lemma finite_taken: "finite {k. c \<le> k \<and> path_exists fs (candidate cp s e k)}"
proof -
  have "{k. c \<le> k \<and> path_exists fs (candidate cp s e k)}
          \<subseteq> candidate cp s e -` (fst ` set (nodes fs))"
    by (auto simp: path_exists_def lookup_def map_of_eq_None_iff)
  moreover have "finite (candidate cp s e -` (fst ` set (nodes fs)))"
    by (rule finite_vimageI) (auto simp: inj_on_def dest: candidate_inj)
  ultimately show ?thesis by (rule finite_subset)
qed

function alloc_loop :: "filesystem \<Rightarrow> path \<Rightarrow> string \<Rightarrow> string \<Rightarrow> path \<Rightarrow> nat \<Rightarrow> path" where
  "alloc_loop fs category_path original_stem file_extension new_file_path counter =
     (if path_exists fs new_file_path then
        alloc_loop fs category_path original_stem file_extension
          (candidate category_path original_stem file_extension counter) (counter + 1)
      else new_file_path)"
  by pat_completeness auto
termination
proof (relation "measure (\<lambda>(fs, cp, s, e, p, c).
         2 * card {k. c \<le> k \<and> path_exists fs (candidate cp s e k)}
           + (if path_exists fs p then 1 else 0))")
  show "wf (measure (\<lambda>(fs, cp, s, e, p, c).
         2 * card {k. c \<le> k \<and> path_exists fs (candidate cp s e k)}
           + (if path_exists fs p then 1 else 0)))"
    by simp
next
  fix fs :: filesystem and cp :: path and s e :: string and p :: path and c :: nat
  assume ex: "path_exists fs p"
  let ?S = "\<lambda>c. {k. c \<le> k \<and> path_exists fs (candidate cp s e k)}"
  show "((fs, cp, s, e, candidate cp s e c, c + 1), fs, cp, s, e, p, c)
       \<in> measure (\<lambda>(fs, cp, s, e, p, c).
         2 * card {k. c \<le> k \<and> path_exists fs (candidate cp s e k)}
           + (if path_exists fs p then 1 else 0))"
  proof (cases "path_exists fs (candidate cp s e c)")
    case True
    have "?S c = insert c (?S (c + 1))"
      using True by (auto simp: le_Suc_eq)
    moreover have "c \<notin> ?S (c + 1)" by simp
    ultimately have "card (?S c) = Suc (card (?S (c + 1)))"
      using finite_taken [of "c + 1" fs cp s e] by simp
    with ex True show ?thesis by simp
  next
    case False
    have "?S c = ?S (c + 1)"
      using False by (auto simp: le_Suc_eq) (metis Suc_leI le_neq_implies_less)
    with ex False show ?thesis by simp
  qed
qed

declare alloc_loop.simps [simp del]

section \<open>The organizer\<close>

text \<open>
  What the program prints, one event per message, with the values the message shows.
\<close>

datatype event =
    PermissionDenied path | Entering string
  | DryRun path path | Moved path path | MoveError string exn
  | LogSaved nat | LogSaveWarning exn
  | NoDirectory | NotDirectory | Banner | NoFiles | Summary bool nat
  | NoLogFile | LogReadError exn | LogEmpty | Undoing nat nat
  | Skipped string | Restored string path | RestoreError string exn
  | RemovedFolder string | UndoComplete nat | LogDeleteWarning exn

text \<open>
  The fields of a \<^verbatim>\<open>FileOrganizer\<close> that stay fixed once it is built, and the state a
  run changes: the filesystem, \<^verbatim>\<open>self.operations\<close>, what was printed, and the clock
  that \<^verbatim>\<open>datetime.now()\<close> reads (each reading advances it).  Category names are taken
  to be single path components.
\<close>

record config =
  str_lower :: "string \<Rightarrow> string"
  directory :: path
  recursive :: bool
  dry_run :: bool
  categories :: category_map
  ignore_patterns :: "string list"

record state =
  disk :: filesystem
  operations :: "operation_record list"
  console :: "event list"
  clock :: nat

definition log_file :: "path \<Rightarrow> path" where
  "log_file dir = dir @ [''.organizer_log.json'']"

definition ignore_file :: "path \<Rightarrow> path" where
  "ignore_file dir = dir @ [''.organizerignore'']"

definition print :: "event \<Rightarrow> state \<Rightarrow> state" where
  "print e st = st\<lparr>console := console st @ [e]\<rparr>"

definition should_ignore :: "config \<Rightarrow> path \<Rightarrow> bool" where
  "should_ignore cfg file_path = ignore_loop (ignore_patterns cfg) (name file_path)"

text \<open>
  \<^verbatim>\<open>organize_file\<close>.  The category folder is created outside the \<^verbatim>\<open>try\<close> block, so an
  exception there leaves the method (\<open>Inl\<close>); an exception of the move is caught, printed
  and answered with \<^verbatim>\<open>False\<close>, the filesystem staying as the move left it.
\<close>

definition organize_file :: "config \<Rightarrow> state \<Rightarrow> path \<Rightarrow> (exn + bool) \<times> state" where
  "organize_file cfg st file_path =
     (let file_extension = suffix_of file_path;
          category = get_category (str_lower cfg) (categories cfg) file_extension;
          category_path = directory cfg @ [category];
          made = (if \<not> dry_run cfg then mkdir False (disk st) category_path
                  else (None, disk st))
      in case fst made of
           Some e \<Rightarrow> (Inl e, st\<lparr>disk := snd made\<rparr>)
         | None \<Rightarrow>
             (let fs1 = snd made;
                  new_file_path = alloc_loop fs1 category_path (stem file_path) file_extension
                                    (category_path @ [name file_path]) 1;
                  rel = (case (relative_to file_path (directory cfg),
                               relative_to new_file_path (directory cfg)) of
                           (Some old_rel, Some new_rel) \<Rightarrow> (old_rel, new_rel)
                         | _ \<Rightarrow> (file_path, new_file_path))
              in if dry_run cfg then (Inr True, print (DryRun (fst rel) (snd rel)) st)
                 else (let moved = shutil_move fs1 file_path new_file_path
                       in case fst moved of
                            None \<Rightarrow>
                              (Inr True,
                               (print (Moved (fst rel) (snd rel)) st)
                                 \<lparr>disk := snd moved,
                                  operations := operations st @
                                    [\<lparr>old_path = file_path, new_path = new_file_path,
                                      timestamp = clock st\<rparr>],
                                  clock := clock st + 1\<rparr>)
                          | Some e \<Rightarrow>
                              (Inr False,
                               (print (MoveError (name file_path) e) st)\<lparr>disk := snd moved\<rparr>))))"

text \<open>
  \<^verbatim>\<open>organize_directory\<close> and its loop over the listed items.  A \<^verbatim>\<open>PermissionError\<close>
  of the listing is caught; any other exception, and any that leaves \<^verbatim>\<open>organize_file\<close>,
  ends the traversal.  \<open>rank\<close> measures the recursion: a directory is entered only from
  the loop over the root's own children.
\<close>

fun rank :: "path \<Rightarrow> path list \<Rightarrow> nat" where
  "rank dir [] = 0"
| "rank dir (item # items) =
     max (if parent item = dir then (if item = dir then 3 else 2) else 0) (rank dir items)"

lemma butlast_self: "butlast p = p \<Longrightarrow> p = []"
  by (cases p rule: rev_cases) auto

lemma rank_children:
  "rank dir (children fs cur) < (if cur = dir then 3 else 2)"
proof -
  have "rank dir (filter (\<lambda>p. p \<noteq> [] \<and> butlast p = cur) ps) < (if cur = dir then 3 else 2)" for ps
    by (induction ps) (auto simp: parent_def dest: butlast_self butlast_self [OF sym])
  then show ?thesis by (simp add: children_def)
qed

function organize_directory :: "config \<Rightarrow> state \<Rightarrow> path \<Rightarrow> (exn + nat) \<times> state"
  and organize_items :: "config \<Rightarrow> state \<Rightarrow> path list \<Rightarrow> nat \<Rightarrow> (exn + nat) \<times> state"
where
  "organize_directory cfg st current_dir =
     (case iterdir (disk st) current_dir of
        Inl e \<Rightarrow>
          if e = PermissionError then (Inr 0, print (PermissionDenied current_dir) st)
          else (Inl e, st)
      | Inr items \<Rightarrow> organize_items cfg st items 0)"
| "organize_items cfg st [] files_processed = (Inr files_processed, st)"
| "organize_items cfg st (item # items) files_processed =
     (if is_dir (disk st) item then
        (if parent item = directory cfg \<and> name item \<in> set (map fst (categories cfg)) then
           organize_items cfg st items files_processed
         else if recursive cfg \<and> parent item = directory cfg then
           (let r = organize_directory cfg (print (Entering (name item)) st) item
            in case fst r of
                 Inl e \<Rightarrow> (Inl e, snd r)
               | Inr n \<Rightarrow> organize_items cfg (snd r) items (files_processed + n))
         else organize_items cfg st items files_processed)
      else if should_ignore cfg item then organize_items cfg st items files_processed
      else (let r = organize_file cfg st item
            in case fst r of
                 Inl e \<Rightarrow> (Inl e, snd r)
               | Inr ok \<Rightarrow>
                   organize_items cfg (snd r) items
                     (if ok then files_processed + 1 else files_processed)))"
  by pat_completeness auto

termination
  apply (relation "measures
     [\<lambda>x. case x of Inl (cfg, st, cur) \<Rightarrow> (if cur = directory cfg then 3 else 2)
                  | Inr (cfg, st, items, n) \<Rightarrow> rank (directory cfg) items,
      \<lambda>x. case x of Inl (cfg, st, cur) \<Rightarrow> 0
                  | Inr (cfg, st, items, n) \<Rightarrow> Suc (length items)]")
       apply simp
  subgoal for cfg st current_dir items
    using rank_children [of "directory cfg" "disk st" current_dir]
    by (auto simp: iterdir_def split: if_splits)
  by auto

declare organize_directory.simps [simp del]

text \<open>
  \<^verbatim>\<open>load_ignore_patterns\<close> and \<^verbatim>\<open>load_categories\<close>, on what reading the file gave:
  the lines of the ignore file, or the dictionary parsed from the configuration file,
  and \<open>None\<close> when the file is absent or could not be read.  The dictionary is returned
  as it is.
\<close>

definition is_space :: "char \<Rightarrow> bool" where
  "is_space c = (let n = (of_char c :: nat) in (9 \<le> n \<and> n \<le> 13) \<or> (28 \<le> n \<and> n \<le> 32))"

definition strip :: "string \<Rightarrow> string" where
  "strip s = rev (dropWhile is_space (rev (dropWhile is_space s)))"

fun collect_patterns :: "string list \<Rightarrow> string list \<Rightarrow> string list" where
  "collect_patterns patterns [] = patterns"
| "collect_patterns patterns (l # ls) =
     (let line = strip l
      in if line \<noteq> [] \<and> \<not> startswith line ''#'' then collect_patterns (patterns @ [line]) ls
         else collect_patterns patterns ls)"

definition load_ignore_patterns :: "string list option \<Rightarrow> string list" where
  "load_ignore_patterns ignore_lines =
     (let patterns = [''.organizer_log.json'', ''.organizerignore'']
      in case ignore_lines of
           Some ls \<Rightarrow> collect_patterns patterns ls
         | None \<Rightarrow> patterns)"

definition load_categories :: "category_map option \<Rightarrow> category_map" where
  "load_categories custom =
     (case custom of Some custom_categories \<Rightarrow> custom_categories | None \<Rightarrow> DEFAULT_CATEGORIES)"

definition FileOrganizer ::
  "(string \<Rightarrow> string) \<Rightarrow> path \<Rightarrow> bool \<Rightarrow> bool \<Rightarrow> category_map option \<Rightarrow> string list option
     \<Rightarrow> config" where
  "FileOrganizer lw dir rec dry custom ignore_lines =
     \<lparr>str_lower = lw, directory = dir, recursive = rec, dry_run = dry,
      categories = load_categories custom,
      ignore_patterns = load_ignore_patterns ignore_lines\<rparr>"

text \<open>\<^verbatim>\<open>save_log\<close> and \<^verbatim>\<open>run\<close>.\<close>

definition save_log :: "config \<Rightarrow> state \<Rightarrow> state" where
  "save_log cfg st =
     (if dry_run cfg \<or> operations st = [] then st
      else (case write_file (disk st) (log_file (directory cfg))
                   (LogJson (clock st) (operations st)) of
              Inr fs' \<Rightarrow>
                (print (LogSaved (length (operations st))) st)\<lparr>disk := fs', clock := clock st + 1\<rparr>
            | Inl e \<Rightarrow> print (LogSaveWarning e) st))"

definition run :: "config \<Rightarrow> state \<Rightarrow> (exn + unit) \<times> state" where
  "run cfg st =
     (if \<not> path_exists (disk st) (directory cfg) then (Inr (), print NoDirectory st)
      else if \<not> is_dir (disk st) (directory cfg) then (Inr (), print NotDirectory st)
      else (let r = organize_directory cfg (print Banner st) (directory cfg)
            in case fst r of
                 Inl e \<Rightarrow> (Inl e, snd r)
               | Inr files_processed \<Rightarrow>
                   (let st' = (if \<not> dry_run cfg then save_log cfg (snd r) else snd r)
                    in (Inr (),
                        if files_processed = 0 then print NoFiles st'
                        else print (Summary (dry_run cfg) files_processed) st'))))"

text \<open>
  \<^verbatim>\<open>undo_organization\<close>: its loop over the reversed operations, its loop that removes
  the empty folders of the root (the two listings there are outside any \<^verbatim>\<open>try\<close>
  block), and the function itself.
\<close>

fun undo_loop :: "operation_record list \<Rightarrow> state \<Rightarrow> nat \<Rightarrow> state \<times> nat" where
  "undo_loop [] st success_count = (st, success_count)"
| "undo_loop (rec # rest) st success_count =
     (if \<not> path_exists (disk st) (new_path rec) then
        undo_loop rest (print (Skipped (name (new_path rec))) st) success_count
      else (let made = mkdir True (disk st) (parent (old_path rec))
            in case fst made of
                 Some e \<Rightarrow>
                   undo_loop rest
                     (print (RestoreError (name (new_path rec)) e) (st\<lparr>disk := snd made\<rparr>))
                     success_count
               | None \<Rightarrow>
                   (let moved = shutil_move (snd made) (new_path rec) (old_path rec)
                    in case fst moved of
                         None \<Rightarrow>
                           undo_loop rest
                             (print (Restored (name (new_path rec)) (old_path rec))
                                (st\<lparr>disk := snd moved\<rparr>))
                             (success_count + 1)
                       | Some e \<Rightarrow>
                           undo_loop rest
                             (print (RestoreError (name (new_path rec)) e) (st\<lparr>disk := snd moved\<rparr>))
                             success_count)))"

fun remove_empty :: "path list \<Rightarrow> state \<Rightarrow> (exn + unit) \<times> state" where
  "remove_empty [] st = (Inr (), st)"
| "remove_empty (item # items) st =
     (if is_dir (disk st) item then
        (case iterdir (disk st) item of
           Inl e \<Rightarrow> (Inl e, st)
         | Inr inside \<Rightarrow>
             if inside = [] then
               (case rmdir (disk st) item of
                  Inr fs' \<Rightarrow> remove_empty items (print (RemovedFolder (name item)) (st\<lparr>disk := fs'\<rparr>))
                | Inl e \<Rightarrow> remove_empty items st)
             else remove_empty items st)
      else remove_empty items st)"

definition undo_organization :: "path \<Rightarrow> state \<Rightarrow> (exn + unit) \<times> state" where
  "undo_organization dir st =
     (if \<not> path_exists (disk st) (log_file dir) then (Inr (), print NoLogFile st)
      else (case read_file (disk st) (log_file dir) of
              Inl e \<Rightarrow> (Inr (), print (LogReadError e) st)
            | Inr (Data s) \<Rightarrow> (Inr (), print (LogReadError JSONDecodeError) st)
            | Inr (LogJson stamp ops) \<Rightarrow>
                if ops = [] then (Inr (), print LogEmpty st)
                else (let restored = undo_loop (rev ops) (print (Undoing (length ops) stamp) st) 0;
                          st1 = fst restored;
                          success_count = snd restored
                      in case iterdir (disk st1) dir of
                           Inl e \<Rightarrow> (Inl e, st1)
                         | Inr items \<Rightarrow>
                             (let cleaned = remove_empty items st1; st2 = snd cleaned
                              in case fst cleaned of
                                   Inl e \<Rightarrow> (Inl e, st2)
                                 | Inr u \<Rightarrow>
                                     (case unlink (disk st2) (log_file dir) of
                                        Inr fs' \<Rightarrow>
                                          (Inr (), print (UndoComplete success_count) (st2\<lparr>disk := fs'\<rparr>))
                                      | Inl e \<Rightarrow> (Inr (), print (LogDeleteWarning e) st2))))))"


section \<open>Derived notions and example filesystems\<close>

text \<open>
  The folder \<^verbatim>\<open>organize_file\<close> moves a file to, and the destination its loop settles on.
\<close>

definition category_path :: "config \<Rightarrow> path \<Rightarrow> path" where
  "category_path cfg file_path =
     directory cfg @ [get_category (str_lower cfg) (categories cfg) (suffix_of file_path)]"

definition destination :: "config \<Rightarrow> filesystem \<Rightarrow> path \<Rightarrow> path" where
  "destination cfg fs file_path =
     alloc_loop fs (category_path cfg file_path) (stem file_path) (suffix_of file_path)
       (category_path cfg file_path @ [name file_path]) 1"

text \<open>A process starts with no recorded operation and nothing printed.\<close>

definition fresh :: "filesystem \<Rightarrow> state" where
  "fresh fs = \<lparr>disk = fs, operations = [], console = [], clock = 0\<rparr>"

definition downloads :: path where
  "downloads = [''home'', ''Downloads'']"

definition docs :: path where
  "docs = downloads @ [''Documents'']"

text \<open>A \<^verbatim>\<open>Documents\<close> folder that holds \<^verbatim>\<open>a.txt\<close>, and one that holds \<^verbatim>\<open>a_1.txt\<close> too.\<close>

definition fs_one_taken :: filesystem where
  "fs_one_taken =
     \<lparr>nodes = [([], Dir), ([''home''], Dir), (downloads, Dir), (docs, Dir),
               (docs @ [''a.txt''], File (Data ''first''))],
      denied = []\<rparr>"

definition fs_two_taken :: filesystem where
  "fs_two_taken =
     \<lparr>nodes = [([], Dir), ([''home''], Dir), (downloads, Dir), (docs, Dir),
               (docs @ [''a.txt''], File (Data ''first'')),
               (docs @ [''a_1.txt''], File (Data ''second''))],
      denied = []\<rparr>"

text \<open>
  A folder with a regular file named \<^verbatim>\<open>Images\<close> (no extension), listed before
  \<^verbatim>\<open>photo.jpg\<close>.
\<close>

definition fs_images :: filesystem where
  "fs_images =
     \<lparr>nodes = [([], Dir), ([''home''], Dir), (downloads, Dir),
               (downloads @ [''Images''], File (Data ''notes'')),
               (downloads @ [''photo.jpg''], File (Data ''pixels''))],
      denied = []\<rparr>"

text \<open>A subfolder \<^verbatim>\<open>sub\<close> with a file and a folder \<^verbatim>\<open>Images\<close> of its own.\<close>

definition fs_nested :: filesystem where
  "fs_nested =
     \<lparr>nodes = [([], Dir), ([''home''], Dir), (downloads, Dir),
               (downloads @ [''sub''], Dir),
               (downloads @ [''sub'', ''old.mp3''], File (Data ''song'')),
               (downloads @ [''sub'', ''Images''], Dir),
               (downloads @ [''sub'', ''Images'', ''x.jpg''], File (Data ''pixels''))],
      denied = []\<rparr>"

text \<open>
  Two text files; the platform refuses to rename the first and to delete it where it is.
\<close>

definition fs_locked :: filesystem where
  "fs_locked =
     \<lparr>nodes = [([], Dir), ([''home''], Dir), (downloads, Dir),
               (downloads @ [''locked.txt''], File (Data ''kept'')),
               (downloads @ [''free.txt''], File (Data ''moved''))],
      denied = [Move (downloads @ [''locked.txt'']) (docs @ [''locked.txt'']),
                Unlink (downloads @ [''locked.txt''])]\<rparr>"

text \<open>
  A folder listed as \<^verbatim>\<open>a.txt\<close>, \<^verbatim>\<open>photo.jpg\<close>, a regular file named \<^verbatim>\<open>Images\<close>,
  \<^verbatim>\<open>b.txt\<close>.
\<close>

definition fs_blocked :: filesystem where
  "fs_blocked =
     \<lparr>nodes = [([], Dir), ([''home''], Dir), (downloads, Dir),
               (downloads @ [''a.txt''], File (Data ''first'')),
               (downloads @ [''photo.jpg''], File (Data ''pixels'')),
               (downloads @ [''Images''], File (Data ''notes'')),
               (downloads @ [''b.txt''], File (Data ''second''))],
      denied = []\<rparr>"

text \<open>The organizer on \<^verbatim>\<open>downloads\<close> with the default categories, live, flat and recursive.\<close>

definition live :: config where
  "live = FileOrganizer ascii_lower downloads False False None None"

definition live_recursive :: config where
  "live_recursive = FileOrganizer ascii_lower downloads True False None None"

text \<open>The pair of paths a dry run reports for a file: relative to the root when both are below it.\<close>

definition intended :: "config \<Rightarrow> filesystem \<Rightarrow> path \<Rightarrow> path \<times> path" where
  "intended cfg fs file_path =
     (case (relative_to file_path (directory cfg),
            relative_to (destination cfg fs file_path) (directory cfg)) of
        (Some old_rel, Some new_rel) \<Rightarrow> (old_rel, new_rel)
      | _ \<Rightarrow> (file_path, destination cfg fs file_path))"

text \<open>
  The name an event of the restore loop carries (skipped, restored or failed), and the
  events that count as a restore.
\<close>

fun record_event_name :: "event \<Rightarrow> string option" where
  "record_event_name (Skipped n) = Some n"
| "record_event_name (Restored n p) = Some n"
| "record_event_name (RestoreError n e) = Some n"
| "record_event_name ev = None"

fun is_restored :: "event \<Rightarrow> bool" where
  "is_restored (Restored n p) = True"
| "is_restored ev = False"

text \<open>
  The state \<^verbatim>\<open>undo_organization\<close> reaches after its restore loop over a log, and after
  its pass over the root's entries.
\<close>

definition after_restore :: "state \<Rightarrow> nat \<Rightarrow> operation_record list \<Rightarrow> state" where
  "after_restore st stamp ops = fst (undo_loop (rev ops) (print (Undoing (length ops) stamp) st) 0)"

definition after_cleanup :: "path list \<Rightarrow> state \<Rightarrow> state" where
  "after_cleanup items st = snd (remove_empty items st)"

text \<open>
  A folder with a log of three moves: the first destination is gone, the second can be
  moved back, the platform refuses to rename the third and to delete it where it is.  In
  the second filesystem it also refuses to delete the log.
\<close>

definition logged :: "operation_record list" where
  "logged =
     [\<lparr>old_path = downloads @ [''a.txt''], new_path = docs @ [''a.txt''], timestamp = 4\<rparr>,
      \<lparr>old_path = downloads @ [''b.txt''], new_path = docs @ [''b.txt''], timestamp = 5\<rparr>,
      \<lparr>old_path = downloads @ [''c.txt''], new_path = docs @ [''c.txt''], timestamp = 6\<rparr>]"

definition fs_logged :: filesystem where
  "fs_logged =
     \<lparr>nodes = [([], Dir), ([''home''], Dir), (downloads, Dir), (docs, Dir),
               (downloads @ [''Audio''], Dir),
               (docs @ [''b.txt''], File (Data ''b'')),
               (docs @ [''c.txt''], File (Data ''c'')),
               (log_file downloads, File (LogJson 7 logged))],
      denied = [Move (docs @ [''c.txt'']) (downloads @ [''c.txt'']),
                Unlink (docs @ [''c.txt''])]\<rparr>"

definition fs_logged_kept :: filesystem where
  "fs_logged_kept = fs_logged\<lparr>denied := Unlink (log_file downloads) # denied fs_logged\<rparr>"

text \<open>A recursive dry run on \<^verbatim>\<open>downloads\<close>.\<close>

definition dry_recursive :: config where
  "dry_recursive = FileOrganizer ascii_lower downloads True True None None"

section \<open>Lemmas on strings, categories and patterns\<close>

lemma lower_char_idem: "lower_char (lower_char c) = lower_char c"
  by (simp add: lower_char_def Let_def)

lemma ascii_lower_idem: "ascii_lower (ascii_lower s) = ascii_lower s"
  by (simp add: ascii_lower_def lower_char_idem)

lemma ignore_loop_step:
  "ignore_loop (p # rest) file_name = (pattern_matches p file_name \<or> ignore_loop rest file_name)"
  by (auto simp: pattern_matches_def startswith_def endswith_def contains_def)

lemma ignore_loop_iff:
  "ignore_loop patterns file_name = (\<exists>p \<in> set patterns. pattern_matches p file_name)"
  by (induction patterns) (simp_all only: ignore_loop_step ignore_loop.simps(1) list.set, auto)

lemma get_category_find:
  "get_category lw cats x =
     (case find (\<lambda>(c, es). lw x \<in> set es) cats of Some (c, es) \<Rightarrow> c | None \<Rightarrow> ''Others'')"
  by (induction cats) auto

lemma get_category_same_lower:
  "lw x = lw y \<Longrightarrow> get_category lw cats x = get_category lw cats y"
  by (induction cats) auto

lemma get_category_absent:
  "\<forall>(c, es) \<in> set cats. lw x \<notin> set es \<Longrightarrow> get_category lw cats x = ''Others''"
  by (induction cats) auto

lemma get_category_owner:
  "(c, es) \<in> set cats \<Longrightarrow> lw x \<in> set es \<Longrightarrow>
   \<exists>es'. (get_category lw cats x, es') \<in> set cats \<and> lw x \<in> set es'"
  by (induction cats) auto

lemma get_category_append:
  "\<forall>(c, es) \<in> set pre. lw x \<notin> set es \<Longrightarrow>
   get_category lw (pre @ rest) x = get_category lw rest x"
  by (induction pre) auto

lemma lowercase_mapD:
  "lowercase_map lw cats \<Longrightarrow> (c, es) \<in> set cats \<Longrightarrow> e \<in> set es \<Longrightarrow> lw e = e"
  by (auto simp: lowercase_map_def list_all_iff)

lemma never_lowered:
  assumes "\<forall>s. lw (lw s) = lw s" "lw e \<noteq> e"
  shows "lw x \<noteq> e"
proof
  assume "lw x = e"
  then have "lw e = lw (lw x)" by simp
  also have "\<dots> = lw x" using assms(1) by simp
  finally show False using \<open>lw x = e\<close> assms(2) by simp
qed

lemma get_category_drop_uppercase:
  assumes "\<forall>s. lw (lw s) = lw s"
  shows "get_category lw (drop_uppercase lw cats) x = get_category lw cats x"
proof (induction cats)
  case Nil
  show ?case by (simp add: drop_uppercase_def)
next
  case (Cons a cats)
  obtain c es where a: "a = (c, es)" by (cases a)
  have "lw x \<in> set (filter (\<lambda>e. lw e = e) es) \<longleftrightarrow> lw x \<in> set es"
    using assms by auto
  with Cons show ?case by (simp add: a drop_uppercase_def)
qed

section \<open>Category resolution\<close>

text \<open>
  Claim C4, on the category maps of the specification, whose stored extensions are all
  lowercase.  \<^verbatim>\<open>get_category\<close> lowercases the queried extension and returns the first
  category, in the map's iteration order, whose list holds it, or \<^verbatim>\<open>Others\<close> when none
  does.  Two spellings with the same lowercase form resolve alike, so the lookup does
  not depend on the case of the query.  For every extension \<open>e\<close> present in the map, every
  spelling of \<open>e\<close> resolves to the category that owns \<open>e\<close>: the only category holding it,
  or, when several hold it, the first of them.  For every extension of which no spelling
  is stored, the result is \<^verbatim>\<open>Others\<close>.
\<close>

theorem get_category_owning_category:
  assumes inv: "lowercase_map lw cats"
  shows "get_category lw cats x =
           (case find (\<lambda>(c, es). lw x \<in> set es) cats of
              Some (c, es) \<Rightarrow> c | None \<Rightarrow> ''Others'')
       \<and> (lw x = lw y \<longrightarrow> get_category lw cats x = get_category lw cats y)
       \<and> ((c, es) \<in> set cats \<and> e \<in> set es \<and> lw x = lw e
            \<and> (\<forall>(c', es') \<in> set cats. e \<in> set es' \<longrightarrow> c' = c) \<longrightarrow>
          get_category lw cats x = c)
       \<and> (cats = pre @ (c, es) # post \<and> e \<in> set es \<and> lw x = lw e
            \<and> (\<forall>(c', es') \<in> set pre. e \<notin> set es') \<longrightarrow>
          get_category lw cats x = c)
       \<and> ((\<forall>(c', es') \<in> set cats. \<forall>e' \<in> set es'. lw e' \<noteq> lw x) \<longrightarrow>
          get_category lw cats x = ''Others'')"
proof (intro conjI impI)
  show "get_category lw cats x =
           (case find (\<lambda>(c, es). lw x \<in> set es) cats of
              Some (c, es) \<Rightarrow> c | None \<Rightarrow> ''Others'')"
    by (rule get_category_find)
next
  assume "lw x = lw y"
  then show "get_category lw cats x = get_category lw cats y"
    by (rule get_category_same_lower)
next
  assume h: "(c, es) \<in> set cats \<and> e \<in> set es \<and> lw x = lw e
            \<and> (\<forall>(c', es') \<in> set cats. e \<in> set es' \<longrightarrow> c' = c)"
  then have le: "lw x = e" using lowercase_mapD [OF inv, of c es e] by simp
  with h get_category_owner [of c es cats lw x] obtain es' where
    "(get_category lw cats x, es') \<in> set cats" "e \<in> set es'" by auto
  with h show "get_category lw cats x = c" by blast
next
  assume h: "cats = pre @ (c, es) # post \<and> e \<in> set es \<and> lw x = lw e
            \<and> (\<forall>(c', es') \<in> set pre. e \<notin> set es')"
  then have "(c, es) \<in> set cats" by simp
  with h have le: "lw x = e" using lowercase_mapD [OF inv, of c es e] by simp
  with h have np: "\<forall>(c', es') \<in> set pre. lw x \<notin> set es'" by simp
  have "get_category lw (pre @ (c, es) # post) x = get_category lw ((c, es) # post) x"
    using np by (rule get_category_append)
  with h le show "get_category lw cats x = c" by simp
next
  assume h: "\<forall>(c', es') \<in> set cats. \<forall>e' \<in> set es'. lw e' \<noteq> lw x"
  have "\<forall>(c', es') \<in> set cats. lw x \<notin> set es'"
  proof (clarify)
    fix c' es' assume m: "(c', es') \<in> set cats" "lw x \<in> set es'"
    from lowercase_mapD [OF inv m] have "lw (lw x) = lw x" .
    with h m show False by blast
  qed
  then show "get_category lw cats x = ''Others''" by (rule get_category_absent)
qed

theorem get_category_owning_category_witness:
  "lowercase_map ascii_lower DEFAULT_CATEGORIES
   \<and> ascii_lower ''.JPG'' = ascii_lower ''.jpg''
   \<and> get_category ascii_lower DEFAULT_CATEGORIES ''.JPG''
       = get_category ascii_lower DEFAULT_CATEGORIES ''.jpg''
   \<and> (''Images'', the (map_of DEFAULT_CATEGORIES ''Images'')) \<in> set DEFAULT_CATEGORIES
   \<and> ''.jpg'' \<in> set (the (map_of DEFAULT_CATEGORIES ''Images''))
   \<and> get_category ascii_lower DEFAULT_CATEGORIES ''.JPG'' = ''Images''
   \<and> get_category ascii_lower DEFAULT_CATEGORIES ''.Xyz'' = ''Others''"
proof -
  let ?es = "the (map_of DEFAULT_CATEGORIES ''Images'')"
  have i: "lowercase_map ascii_lower DEFAULT_CATEGORIES" by code_simp
  have a: "(''Images'', ?es) \<in> set DEFAULT_CATEGORIES" "''.jpg'' \<in> set ?es" by code_simp+
  have l: "ascii_lower ''.JPG'' = ascii_lower ''.jpg''" by code_simp
  have u: "\<forall>(c', es') \<in> set DEFAULT_CATEGORIES. ''.jpg'' \<in> set es' \<longrightarrow> c' = ''Images''"
    by code_simp
  have n: "\<forall>(c', es') \<in> set DEFAULT_CATEGORIES. \<forall>e' \<in> set es'. ascii_lower e' \<noteq> ascii_lower ''.Xyz''"
    by code_simp
  note t = get_category_owning_category [OF i]
  from t [of "''.JPG''" "''.jpg''"] l
  have 1: "get_category ascii_lower DEFAULT_CATEGORIES ''.JPG''
       = get_category ascii_lower DEFAULT_CATEGORIES ''.jpg''" by blast
  from t [of "''.JPG''" _ "''Images''" ?es "''.jpg''"] a l u
  have 2: "get_category ascii_lower DEFAULT_CATEGORIES ''.JPG'' = ''Images''" by blast
  from t [of "''.Xyz''"] n
  have 3: "get_category ascii_lower DEFAULT_CATEGORIES ''.Xyz'' = ''Others''" by blast
  from i a l 1 2 3 show ?thesis by blast
qed

text \<open>
  Claim C10: only the queried extension is lowercased, and it is compared verbatim with
  the stored strings.  What is used of \<^verbatim>\<open>str.lower\<close> is that lowering a lowered string
  changes nothing.  A stored extension with an uppercase letter (one that lowering
  changes) is then the lowercase form of no string, so no query resolves to it: the map
  resolves every query as the map without such entries does, and a map whose only entry
  has an uppercase letter sends every query to \<^verbatim>\<open>Others\<close>.  Where every stored extension
  is lowercase, each spelling of a stored extension resolves to a category that holds it.
\<close>

theorem get_category_ignores_uppercase_entries:
  assumes idem: "\<forall>s. lw (lw s) = lw s"
  shows "(lw e \<noteq> e \<longrightarrow> lw x \<noteq> e)
       \<and> get_category lw (drop_uppercase lw cats) x = get_category lw cats x
       \<and> (lw e \<noteq> e \<longrightarrow> get_category lw [(c, [e])] x = ''Others'')
       \<and> (lowercase_map lw cats \<and> (c, es) \<in> set cats \<and> e \<in> set es \<and> lw x = lw e \<longrightarrow>
            (\<exists>es'. (get_category lw cats x, es') \<in> set cats \<and> e \<in> set es'))"
proof (intro conjI impI)
  assume "lw e \<noteq> e"
  with idem show "lw x \<noteq> e" by (rule never_lowered)
next
  show "get_category lw (drop_uppercase lw cats) x = get_category lw cats x"
    using idem by (rule get_category_drop_uppercase)
next
  assume "lw e \<noteq> e"
  with idem have "lw x \<noteq> e" by (rule never_lowered)
  then show "get_category lw [(c, [e])] x = ''Others''" by simp
next
  assume h: "lowercase_map lw cats \<and> (c, es) \<in> set cats \<and> e \<in> set es \<and> lw x = lw e"
  then have "lw e = e" using lowercase_mapD [of lw cats c es e] by simp
  with h get_category_owner [of c es cats lw x]
  show "\<exists>es'. (get_category lw cats x, es') \<in> set cats \<and> e \<in> set es'" by auto
qed

theorem get_category_ignores_uppercase_entries_witness:
  "(\<forall>s. ascii_lower (ascii_lower s) = ascii_lower s)
   \<and> ascii_lower ''.JPG'' \<noteq> ''.JPG''
   \<and> get_category ascii_lower (drop_uppercase ascii_lower [(''Images'', [''.JPG'', ''.gif''])]) ''.JPG''
       = get_category ascii_lower [(''Images'', [''.JPG'', ''.gif''])] ''.JPG''
   \<and> get_category ascii_lower [(''Images'', [''.JPG''])] ''.JPG'' = ''Others''
   \<and> get_category ascii_lower [(''Images'', [''.JPG''])] ''.jpg'' = ''Others''
   \<and> lowercase_map ascii_lower [(''Images'', [''.gif''])]
   \<and> get_category ascii_lower [(''Images'', [''.gif''])] ''.GIF'' = ''Images''"
proof -
  have i: "\<forall>s. ascii_lower (ascii_lower s) = ascii_lower s" by (simp add: ascii_lower_idem)
  have a: "ascii_lower ''.JPG'' \<noteq> ''.JPG''" by code_simp
  have b: "lowercase_map ascii_lower [(''Images'', [''.gif''])]" by code_simp
  have c: "ascii_lower ''.GIF'' = ascii_lower ''.gif''" by code_simp
  note t = get_category_ignores_uppercase_entries [OF i]
  from t [of _ _ "[(''Images'', [''.JPG'', ''.gif''])]" "''.JPG''"]
  have 1: "get_category ascii_lower (drop_uppercase ascii_lower [(''Images'', [''.JPG'', ''.gif''])]) ''.JPG''
     = get_category ascii_lower [(''Images'', [''.JPG'', ''.gif''])] ''.JPG''" by blast
  from t [of "''.JPG''" "''.JPG''" _ "''Images''"] a
  have 2: "get_category ascii_lower [(''Images'', [''.JPG''])] ''.JPG'' = ''Others''" by blast
  from t [of "''.JPG''" "''.jpg''" _ "''Images''"] a
  have 3: "get_category ascii_lower [(''Images'', [''.JPG''])] ''.jpg'' = ''Others''" by blast
  from t [of "''.gif''" "''.GIF''" "[(''Images'', [''.gif''])]" "''Images''" "[''.gif'']"] b c
  have "\<exists>es'. (get_category ascii_lower [(''Images'', [''.gif''])] ''.GIF'', es')
            \<in> set [(''Images'', [''.gif''])] \<and> ''.gif'' \<in> set es'"
    by simp
  then have 4: "get_category ascii_lower [(''Images'', [''.gif''])] ''.GIF'' = ''Images''" by auto
  from i a b 1 2 3 4 show ?thesis by blast
qed

section \<open>Ignore patterns\<close>

text \<open>
  Claim C5: \<^verbatim>\<open>should_ignore\<close> tries the patterns in order and answers at the first that
  matches: the empty list ignores nothing, and a list ignores a name when its first pattern
  matches or its remaining patterns ignore the name.  A pattern with a leading star
  matches when the name ends with the rest of the pattern (also when the pattern ends with
  a star as well: that star is then part of the ending asked for); otherwise a pattern
  with a trailing star matches when the name starts with the rest; otherwise the pattern
  matches when it occurs in the name.  The three examples of the specification hold.
\<close>

theorem shouldIgnore_first_matching_pattern:
  "shouldIgnore file_name [] = False
   \<and> shouldIgnore file_name (p # rest) = (pattern_matches p file_name \<or> shouldIgnore file_name rest)
   \<and> shouldIgnore file_name patterns = (\<exists>q \<in> set patterns. pattern_matches q file_name)
   \<and> pattern_matches p file_name =
       (if startswith p ''*'' then endswith file_name (drop 1 p)
        else if endswith p ''*'' then startswith file_name (butlast p)
        else contains file_name p)
   \<and> pattern_matches (''*'' @ r @ ''*'') file_name = endswith file_name (r @ ''*'')
   \<and> shouldIgnore ''file.log'' [''*.log''] = True
   \<and> shouldIgnore ''draft_x.txt'' [''draft_*''] = True
   \<and> shouldIgnore ''keep.txt'' [''*.log'', ''draft_*''] = False"
proof -
  have "shouldIgnore ''file.log'' [''*.log''] = True"
    "shouldIgnore ''draft_x.txt'' [''draft_*''] = True"
    "shouldIgnore ''keep.txt'' [''*.log'', ''draft_*''] = False"
    by code_simp+
  moreover have "pattern_matches (''*'' @ r @ ''*'') file_name = endswith file_name (r @ ''*'')"
    by (simp add: pattern_matches_def endswith_def)
  moreover have "pattern_matches p file_name =
       (if startswith p ''*'' then endswith file_name (drop 1 p)
        else if endswith p ''*'' then startswith file_name (butlast p)
        else contains file_name p)"
    by (simp add: pattern_matches_def startswith_def endswith_def contains_def)
  ultimately show ?thesis
    using ignore_loop_step [of p rest file_name] ignore_loop_iff [of patterns file_name]
    by (simp only: shouldIgnore_def ignore_loop.simps(1) simp_thms)
qed

theorem shouldIgnore_first_matching_pattern_witness:
  "shouldIgnore ''notes_backup.txt'' [''*.log'', ''*backup*'', ''notes'']
     = (pattern_matches ''*.log'' ''notes_backup.txt''
        \<or> shouldIgnore ''notes_backup.txt'' [''*backup*'', ''notes''])
   \<and> pattern_matches ''*backup*'' ''notes_backup.txt'' = endswith ''notes_backup.txt'' ''backup*''
   \<and> \<not> pattern_matches ''*backup*'' ''notes_backup.txt''
   \<and> shouldIgnore ''notes_backup.txt'' [''*.log'', ''*backup*'', ''notes'']"
proof -
  have a: "\<not> pattern_matches ''*backup*'' ''notes_backup.txt''" by code_simp
  have b: "shouldIgnore ''notes_backup.txt'' [''*.log'', ''*backup*'', ''notes'']" by code_simp
  from shouldIgnore_first_matching_pattern
    [of "''notes_backup.txt''" "''*.log''" "[''*backup*'', ''notes'']" _ "''backup''"]
  have "shouldIgnore ''notes_backup.txt'' (''*.log'' # [''*backup*'', ''notes''])
     = (pattern_matches ''*.log'' ''notes_backup.txt''
        \<or> shouldIgnore ''notes_backup.txt'' [''*backup*'', ''notes''])"
    and "pattern_matches (''*'' @ ''backup'' @ ''*'') ''notes_backup.txt''
           = endswith ''notes_backup.txt'' (''backup'' @ ''*'')"
    by blast+
  with a b show ?thesis by simp
qed

section \<open>Destination names\<close>

lemma alloc_loop_free: "\<not> path_exists fs (alloc_loop fs cp s e p c)"
  by (induction fs cp s e p c rule: alloc_loop.induct) (subst alloc_loop.simps, simp)

lemma alloc_loop_first: "\<not> path_exists fs p \<Longrightarrow> alloc_loop fs cp s e p c = p"
  by (subst alloc_loop.simps) simp

lemma alloc_loop_least:
  "path_exists fs p \<Longrightarrow>
   \<exists>k\<ge>c. alloc_loop fs cp s e p c = candidate cp s e k
         \<and> (\<forall>j. c \<le> j \<and> j < k \<longrightarrow> path_exists fs (candidate cp s e j))"
proof (induction fs cp s e p c rule: alloc_loop.induct)
  case (1 fs cp s e p c)
  show ?case
  proof (cases "path_exists fs (candidate cp s e c)")
    case False
    then have "alloc_loop fs cp s e p c = candidate cp s e c"
      using "1.prems" by (subst alloc_loop.simps) (simp add: alloc_loop_first)
    then show ?thesis by auto
  next
    case True
    from "1.IH" [OF "1.prems" True] obtain k where k: "c + 1 \<le> k"
      "alloc_loop fs cp s e (candidate cp s e c) (c + 1) = candidate cp s e k"
      "\<forall>j. c + 1 \<le> j \<and> j < k \<longrightarrow> path_exists fs (candidate cp s e j)"
      by blast
    have "alloc_loop fs cp s e p c = candidate cp s e k"
      using "1.prems" k(2) by (subst alloc_loop.simps) simp
    moreover have "\<forall>j. c \<le> j \<and> j < k \<longrightarrow> path_exists fs (candidate cp s e j)"
    proof (intro allI impI)
      fix j assume "c \<le> j \<and> j < k"
      then show "path_exists fs (candidate cp s e j)"
        using True k(3) by (cases "j = c") auto
    qed
    ultimately show ?thesis using k(1) by (intro exI [of _ k]) simp
  qed
qed

lemma stem_suffix: "stem p @ suffix_of p = name p"
  by (simp add: stem_def suffix_of_def Let_def)

text \<open>
  Claim C3: the destination the loop returns does not exist on the filesystem, whatever
  the folder, the stem, the extension, the first path tried and the counter.  The first
  path tried is the folder with the file's own name, which is its stem followed by its
  extension; if that is free it is the result; otherwise the result is the stem with
  \<^verbatim>\<open>_k\<close> and the extension for the least \<open>k \<ge> 1\<close> whose name is free, every smaller
  counter's name being taken.  With \<^verbatim>\<open>a.txt\<close> in the folder the result for another
  \<^verbatim>\<open>a.txt\<close> is \<^verbatim>\<open>a_1.txt\<close>, and with \<^verbatim>\<open>a_1.txt\<close> there too it is \<^verbatim>\<open>a_2.txt\<close>.
\<close>

theorem destination_is_free:
  "\<not> path_exists fs (alloc_loop fs cp s e p c)
   \<and> \<not> path_exists fs (destination cfg fs file_path)
   \<and> stem file_path @ suffix_of file_path = name file_path
   \<and> (\<not> path_exists fs (cp @ [s @ e]) \<longrightarrow> alloc_loop fs cp s e (cp @ [s @ e]) 1 = cp @ [s @ e])
   \<and> (path_exists fs (cp @ [s @ e]) \<longrightarrow>
        (\<exists>k\<ge>1. alloc_loop fs cp s e (cp @ [s @ e]) 1 = cp @ [s @ ''_'' @ dec k @ e]
           \<and> (\<forall>j. 1 \<le> j \<and> j < k \<longrightarrow> path_exists fs (cp @ [s @ ''_'' @ dec j @ e]))))
   \<and> alloc_loop fs_one_taken docs ''a'' ''.txt'' (docs @ [''a.txt'']) 1 = docs @ [''a_1.txt'']
   \<and> alloc_loop fs_two_taken docs ''a'' ''.txt'' (docs @ [''a.txt'']) 1 = docs @ [''a_2.txt'']"
proof -
  have "alloc_loop fs_one_taken docs ''a'' ''.txt'' (docs @ [''a.txt'']) 1 = docs @ [''a_1.txt'']"
    "alloc_loop fs_two_taken docs ''a'' ''.txt'' (docs @ [''a.txt'']) 1 = docs @ [''a_2.txt'']"
    by code_simp+
  moreover have "\<not> path_exists fs (destination cfg fs file_path)"
    by (simp add: destination_def alloc_loop_free)
  ultimately show ?thesis
    using alloc_loop_free [of fs cp s e p c] stem_suffix [of file_path]
      alloc_loop_first [of fs "cp @ [s @ e]" cp s e 1]
      alloc_loop_least [of fs "cp @ [s @ e]" 1 cp s e]
    by (simp add: candidate_def)
qed

theorem destination_is_free_witness:
  "path_exists fs_two_taken (docs @ [''a'' @ ''.txt''])
   \<and> \<not> path_exists fs_two_taken (alloc_loop fs_two_taken docs ''a'' ''.txt'' (docs @ [''a.txt'']) 1)
   \<and> (\<exists>k\<ge>1. alloc_loop fs_two_taken docs ''a'' ''.txt'' (docs @ [''a'' @ ''.txt'']) 1
                 = docs @ [''a'' @ ''_'' @ dec k @ ''.txt''])
   \<and> \<not> path_exists fs_one_taken (docs @ [''b'' @ ''.txt''])
   \<and> alloc_loop fs_one_taken docs ''b'' ''.txt'' (docs @ [''b'' @ ''.txt'']) 1 = docs @ [''b'' @ ''.txt'']
   \<and> stem (downloads @ [''a.txt'']) = ''a'' \<and> suffix_of (downloads @ [''a.txt'']) = ''.txt''"
proof -
  have a: "path_exists fs_two_taken (docs @ [''a'' @ ''.txt''])" by code_simp
  have b: "\<not> path_exists fs_one_taken (docs @ [''b'' @ ''.txt''])" by code_simp
  have c: "stem (downloads @ [''a.txt'']) = ''a''" "suffix_of (downloads @ [''a.txt'']) = ''.txt''"
    by code_simp+
  note t = destination_is_free [of fs_two_taken docs "''a''" "''.txt''" "docs @ [''a.txt'']" 1]
  from t have 1: "\<not> path_exists fs_two_taken
      (alloc_loop fs_two_taken docs ''a'' ''.txt'' (docs @ [''a.txt'']) 1)" by blast
  from t a have 2: "\<exists>k\<ge>1. alloc_loop fs_two_taken docs ''a'' ''.txt'' (docs @ [''a'' @ ''.txt'']) 1
                 = docs @ [''a'' @ ''_'' @ dec k @ ''.txt'']" by blast
  from destination_is_free [of fs_one_taken docs "''b''" "''.txt''"] b
  have 3: "alloc_loop fs_one_taken docs ''b'' ''.txt'' (docs @ [''b'' @ ''.txt'']) 1
             = docs @ [''b'' @ ''.txt'']" by blast
  from a b c 1 2 3 show ?thesis by blast
qed

section \<open>Moving one file\<close>

lemma organize_file_raised:
  assumes "\<not> dry_run cfg" "mkdir False (disk st) (category_path cfg p) = (Some e, fs1)"
  shows "organize_file cfg st p = (Inl e, st\<lparr>disk := fs1\<rparr>)"
  using assms by (simp add: organize_file_def category_path_def Let_def)

lemma organize_file_moved:
  assumes "\<not> dry_run cfg" "mkdir False (disk st) (category_path cfg p) = (None, fs1)"
    "shutil_move fs1 p (destination cfg fs1 p) = (None, fs2)"
  shows "fst (organize_file cfg st p) = Inr True
     \<and> disk (snd (organize_file cfg st p)) = fs2
     \<and> operations (snd (organize_file cfg st p)) = operations st @
           [\<lparr>old_path = p, new_path = destination cfg fs1 p, timestamp = clock st\<rparr>]
     \<and> (\<exists>a b. console (snd (organize_file cfg st p)) = console st @ [Moved a b])
     \<and> clock (snd (organize_file cfg st p)) = clock st + 1"
  using assms
  by (simp add: organize_file_def category_path_def destination_def Let_def print_def
      split: option.splits)

lemma organize_file_failed:
  assumes "\<not> dry_run cfg" "mkdir False (disk st) (category_path cfg p) = (None, fs1)"
    "shutil_move fs1 p (destination cfg fs1 p) = (Some e, fs2)"
  shows "organize_file cfg st p =
     (Inr False, st\<lparr>disk := fs2, console := console st @ [MoveError (name p) e]\<rparr>)"
  using assms
  by (simp add: organize_file_def category_path_def destination_def Let_def print_def
      split: option.splits)

lemma organize_items_file:
  "\<not> is_dir (disk st) item \<Longrightarrow> \<not> should_ignore cfg item \<Longrightarrow>
   organize_items cfg st (item # items) n =
     (case organize_file cfg st item of
        (Inl e, st') \<Rightarrow> (Inl e, st')
      | (Inr ok, st') \<Rightarrow> organize_items cfg st' items (if ok then n + 1 else n))"
  by (simp add: Let_def split: prod.splits sum.splits)

text \<open>
  A move that raises is caught: with \<^verbatim>\<open>locked.txt\<close>, which the platform lets neither be
  renamed nor be deleted, the error is printed, \<^verbatim>\<open>False\<close> is answered, no record is
  appended, and the run goes on to \<^verbatim>\<open>free.txt\<close>.  The file is still at its place, and
  \<^verbatim>\<open>shutil.move\<close> has left a copy of it at the destination.
\<close>

lemma failed_move_is_caught:
  "fst (organize_file live (fresh fs_locked) (downloads @ [''locked.txt''])) = Inr False
   \<and> operations (snd (organize_file live (fresh fs_locked) (downloads @ [''locked.txt'']))) = []
   \<and> console (snd (organize_file live (fresh fs_locked) (downloads @ [''locked.txt''])))
       = [MoveError ''locked.txt'' PermissionError]
   \<and> lookup (disk (snd (organize_file live (fresh fs_locked) (downloads @ [''locked.txt'']))))
        (downloads @ [''locked.txt'']) = Some (File (Data ''kept''))
   \<and> lookup (disk (snd (organize_file live (fresh fs_locked) (downloads @ [''locked.txt'']))))
        (docs @ [''locked.txt'']) = Some (File (Data ''kept''))
   \<and> fst (run live (fresh fs_locked)) = Inr ()
   \<and> console (snd (run live (fresh fs_locked)))
       = [Banner, MoveError ''locked.txt'' PermissionError,
          Moved [''free.txt''] [''Documents'', ''free.txt''], LogSaved 1, Summary False 1]
   \<and> map old_path (operations (snd (run live (fresh fs_locked)))) = [downloads @ [''free.txt'']]"
  by code_simp

text \<open>
  Claim C7 at a failing input: the folder is listed as \<^verbatim>\<open>a.txt\<close>, \<^verbatim>\<open>photo.jpg\<close>, a
  regular file named \<^verbatim>\<open>Images\<close>, \<^verbatim>\<open>b.txt\<close>.  The live run moves \<^verbatim>\<open>a.txt\<close>; for
  \<^verbatim>\<open>photo.jpg\<close> the category folder cannot be created, a file being at its path, and the
  \<^verbatim>\<open>FileExistsError\<close> leaves \<^verbatim>\<open>organize_file\<close>, the traversal and \<^verbatim>\<open>run\<close>: no
  failure is printed, nothing is answered for the file, \<^verbatim>\<open>b.txt\<close> is never visited, and
  the move of \<^verbatim>\<open>a.txt\<close>, recorded in memory, is never written to a log.
\<close>

theorem folder_creation_aborts_traversal:
  "fst (organize_file live (fresh fs_blocked) (downloads @ [''photo.jpg''])) = Inl FileExistsError
   \<and> fst (run live (fresh fs_blocked)) = Inl FileExistsError
   \<and> console (snd (run live (fresh fs_blocked)))
       = [Banner, Moved [''a.txt''] [''Documents'', ''a.txt'']]
   \<and> map old_path (operations (snd (run live (fresh fs_blocked)))) = [downloads @ [''a.txt'']]
   \<and> lookup (disk (snd (run live (fresh fs_blocked)))) (docs @ [''a.txt''])
       = Some (File (Data ''first''))
   \<and> lookup (disk (snd (run live (fresh fs_blocked)))) (downloads @ [''photo.jpg''])
       = Some (File (Data ''pixels''))
   \<and> lookup (disk (snd (run live (fresh fs_blocked)))) (downloads @ [''b.txt''])
       = Some (File (Data ''second''))
   \<and> lookup (disk (snd (run live (fresh fs_blocked)))) (docs @ [''b.txt'']) = None
   \<and> lookup (disk (snd (run live (fresh fs_blocked)))) (log_file downloads) = None"
  by code_simp

section \<open>Directories met during the traversal\<close>

lemma organize_items_directory:
  "is_dir (disk st) item \<Longrightarrow>
   organize_items cfg st (item # items) n =
     (if parent item = directory cfg \<and> name item \<in> set (map fst (categories cfg)) then
        organize_items cfg st items n
      else if recursive cfg \<and> parent item = directory cfg then
        (case organize_directory cfg (print (Entering (name item)) st) item of
           (Inl e, st') \<Rightarrow> (Inl e, st')
         | (Inr k, st') \<Rightarrow> organize_items cfg st' items (n + k))
      else organize_items cfg st items n)"
  by (simp add: Let_def split: prod.splits sum.splits)

text \<open>
  Claim C2, as the specification states it, has deeper nested folders traversed and
  their files counted.  The run below is recursive; \<^verbatim>\<open>sub/old.mp3\<close> is moved and counted,
  but the folder \<^verbatim>\<open>sub/Images\<close> is not entered: \<^verbatim>\<open>sub/Images/x.jpg\<close> is where it was,
  and the count printed is 1.
\<close>

theorem nested_folder_counterexample:
  "is_dir fs_nested (downloads @ [''sub'', ''Images''])
   \<and> recursive live_recursive
   \<and> fst (run live_recursive (fresh fs_nested)) = Inr ()
   \<and> console (snd (run live_recursive (fresh fs_nested)))
       = [Banner, Entering ''sub'', Moved [''sub'', ''old.mp3''] [''Audio'', ''old.mp3''],
          LogSaved 1, Summary False 1]
   \<and> lookup (disk (snd (run live_recursive (fresh fs_nested)))) (downloads @ [''sub'', ''Images'', ''x.jpg''])
       = Some (File (Data ''pixels''))
   \<and> lookup (disk (snd (run live_recursive (fresh fs_nested)))) (downloads @ [''Images'', ''x.jpg'']) = None"
  by code_simp

text \<open>
  Claim C2, amended: a directory met by the loop is passed over, whatever the recursion
  flag, when it is a direct child of the root and its name is a category name of the
  map; it is entered, and the count it returns added, when recursion is on, it is a
  direct child of the root and its name is no category name; and in every other case
  (recursion off, or the directory is no direct child of the root) it is passed over,
  whatever its name, so nothing below the first level of subfolders is traversed.
\<close>

theorem directories_one_level:
  assumes "is_dir (disk st) item"
  shows "(parent item = directory cfg \<and> name item \<in> set (map fst (categories cfg)) \<longrightarrow>
            organize_items cfg st (item # items) n = organize_items cfg st items n)
       \<and> (recursive cfg \<and> parent item = directory cfg
            \<and> name item \<notin> set (map fst (categories cfg)) \<longrightarrow>
            organize_items cfg st (item # items) n =
              (case organize_directory cfg (print (Entering (name item)) st) item of
                 (Inl e, st') \<Rightarrow> (Inl e, st')
               | (Inr k, st') \<Rightarrow> organize_items cfg st' items (n + k)))
       \<and> (\<not> recursive cfg \<or> parent item \<noteq> directory cfg \<longrightarrow>
            organize_items cfg st (item # items) n = organize_items cfg st items n)"
  using organize_items_directory [OF assms, of cfg items n] by auto

theorem directories_one_level_witness:
  "is_dir (disk (fresh fs_nested)) (downloads @ [''sub'', ''Images''])
   \<and> parent (downloads @ [''sub'', ''Images'']) \<noteq> directory live_recursive
   \<and> organize_items live_recursive (fresh fs_nested)
        [downloads @ [''sub'', ''Images''], downloads @ [''sub'', ''old.mp3'']] 0
      = organize_items live_recursive (fresh fs_nested) [downloads @ [''sub'', ''old.mp3'']] 0
   \<and> is_dir (disk (fresh fs_nested)) (downloads @ [''sub''])
   \<and> recursive live_recursive \<and> parent (downloads @ [''sub'']) = directory live_recursive
   \<and> fst (organize_items live_recursive (fresh fs_nested) [downloads @ [''sub'']] 0) = Inr 1"
proof -
  let ?st = "fresh fs_nested"
  have a: "is_dir (disk ?st) (downloads @ [''sub'', ''Images''])"
    "is_dir (disk ?st) (downloads @ [''sub''])" by code_simp+
  have b: "parent (downloads @ [''sub'', ''Images'']) \<noteq> directory live_recursive"
    "parent (downloads @ [''sub'']) = directory live_recursive" "recursive live_recursive"
    "name (downloads @ [''sub'']) \<notin> set (map fst (categories live_recursive))"
    by code_simp+
  have c: "fst (organize_directory live_recursive
             (print (Entering (name (downloads @ [''sub'']))) ?st) (downloads @ [''sub''])) = Inr 1"
    by code_simp
  from directories_one_level [OF a(1), of live_recursive "[downloads @ [''sub'', ''old.mp3'']]" 0] b
  have 1: "organize_items live_recursive ?st
        [downloads @ [''sub'', ''Images''], downloads @ [''sub'', ''old.mp3'']] 0
      = organize_items live_recursive ?st [downloads @ [''sub'', ''old.mp3'']] 0" by blast
  from directories_one_level [OF a(2), of live_recursive "[]" 0] b
  have "organize_items live_recursive ?st [downloads @ [''sub'']] 0 =
     (case organize_directory live_recursive (print (Entering (name (downloads @ [''sub'']))) ?st)
             (downloads @ [''sub'']) of
        (Inl e, st') \<Rightarrow> (Inl e, st')
      | (Inr k, st') \<Rightarrow> organize_items live_recursive st' [] (0 + k))" by blast
  with c have 2: "fst (organize_items live_recursive ?st [downloads @ [''sub'']] 0) = Inr 1"
    by (auto split: prod.splits sum.splits)
  from a b 1 2 show ?thesis by blast
qed

section \<open>Organizing, then undoing\<close>

text \<open>
  Claim C1 at a failing input: the folder holds a regular file named \<^verbatim>\<open>Images\<close> and,
  listed after it, \<^verbatim>\<open>photo.jpg\<close>.  The live run moves both (the first to
  \<^verbatim>\<open>Others/Images\<close>, then creates the folder \<^verbatim>\<open>Images\<close> for the second); the
  undo then finds a directory at the first file's original path and moves the file into
  it: the path \<^verbatim>\<open>Images\<close> is a directory afterwards and the file is at
  \<^verbatim>\<open>Images/Images\<close>.
\<close>

theorem undo_misplaces_file_named_like_category:
  "map old_path (operations (snd (run live (fresh fs_images))))
     = [downloads @ [''Images''], downloads @ [''photo.jpg'']]
   \<and> fst (undo_organization downloads (fresh (disk (snd (run live (fresh fs_images)))))) = Inr ()
   \<and> lookup (disk (snd (undo_organization downloads (fresh (disk (snd (run live (fresh fs_images)))))))) 
        (downloads @ [''Images'']) = Some Dir
   \<and> lookup (disk (snd (undo_organization downloads (fresh (disk (snd (run live (fresh fs_images))))))))
        (downloads @ [''Images'', ''Images'']) = Some (File (Data ''notes''))
   \<and> lookup fs_images (downloads @ [''Images'']) = Some (File (Data ''notes''))"
  by code_simp

section \<open>Undoing a log\<close>

lemma undo_loop_skip:
  "\<not> path_exists (disk s) (new_path r) \<Longrightarrow>
   undo_loop (r # rs) s k = undo_loop rs (print (Skipped (name (new_path r))) s) k"
  by simp

lemma undo_loop_mkdir_fails:
  "path_exists (disk s) (new_path r) \<Longrightarrow>
   mkdir True (disk s) (parent (old_path r)) = (Some e, fs1) \<Longrightarrow>
   undo_loop (r # rs) s k =
     undo_loop rs (print (RestoreError (name (new_path r)) e) (s\<lparr>disk := fs1\<rparr>)) k"
  by (simp add: Let_def)

lemma undo_loop_move_fails:
  "path_exists (disk s) (new_path r) \<Longrightarrow>
   mkdir True (disk s) (parent (old_path r)) = (None, fs1) \<Longrightarrow>
   shutil_move fs1 (new_path r) (old_path r) = (Some e, fs2) \<Longrightarrow>
   undo_loop (r # rs) s k =
     undo_loop rs (print (RestoreError (name (new_path r)) e) (s\<lparr>disk := fs2\<rparr>)) k"
  by (simp add: Let_def)

lemma undo_loop_restores:
  "path_exists (disk s) (new_path r) \<Longrightarrow>
   mkdir True (disk s) (parent (old_path r)) = (None, fs1) \<Longrightarrow>
   shutil_move fs1 (new_path r) (old_path r) = (None, fs2) \<Longrightarrow>
   undo_loop (r # rs) s k =
     undo_loop rs (print (Restored (name (new_path r)) (old_path r)) (s\<lparr>disk := fs2\<rparr>)) (k + 1)"
  by (simp add: Let_def)

lemma undo_loop_step:
  "\<exists>s' ev. undo_loop (r # rs) s k = undo_loop rs s' (k + (if is_restored ev then 1 else 0))
      \<and> console s' = console s @ [ev]
      \<and> record_event_name ev = Some (name (new_path r))"
proof (cases "path_exists (disk s) (new_path r)")
  case False
  from undo_loop_skip [OF False, of rs k] show ?thesis
    by (intro exI [of _ "print (Skipped (name (new_path r))) s"] exI [of _ "Skipped (name (new_path r))"])
       (simp add: print_def)
next
  case True
  obtain m fs1 where m: "mkdir True (disk s) (parent (old_path r)) = (m, fs1)"
    by (cases "mkdir True (disk s) (parent (old_path r))")
  show ?thesis
  proof (cases m)
    case (Some e)
    with undo_loop_mkdir_fails [OF True, of e fs1 rs k] m show ?thesis
      by (intro exI [of _ "print (RestoreError (name (new_path r)) e) (s\<lparr>disk := fs1\<rparr>)"]
            exI [of _ "RestoreError (name (new_path r)) e"])
         (simp add: print_def)
  next
    case None
    obtain mv fs2 where mv: "shutil_move fs1 (new_path r) (old_path r) = (mv, fs2)"
      by (cases "shutil_move fs1 (new_path r) (old_path r)")
    show ?thesis
    proof (cases mv)
      case (Some e)
      with undo_loop_move_fails [OF True, of fs1 e fs2 rs k] m None mv show ?thesis
        by (intro exI [of _ "print (RestoreError (name (new_path r)) e) (s\<lparr>disk := fs2\<rparr>)"]
              exI [of _ "RestoreError (name (new_path r)) e"])
           (simp add: print_def)
    next
      case moved: None
      with undo_loop_restores [OF True, of fs1 fs2 rs k] m None mv show ?thesis
        by (intro exI [of _ "print (Restored (name (new_path r)) (old_path r)) (s\<lparr>disk := fs2\<rparr>)"]
              exI [of _ "Restored (name (new_path r)) (old_path r)"])
           (simp add: print_def)
    qed
  qed
qed

lemma undo_loop_events:
  "\<exists>evs. console (fst (undo_loop recs s k)) = console s @ evs
      \<and> map record_event_name evs = map (\<lambda>r. Some (name (new_path r))) recs
      \<and> snd (undo_loop recs s k) = k + length (filter is_restored evs)"
proof (induction recs arbitrary: s k)
  case Nil
  show ?case by simp
next
  case (Cons r rs)
  from undo_loop_step [of r rs s k] obtain s' ev where
    st: "undo_loop (r # rs) s k = undo_loop rs s' (k + (if is_restored ev then 1 else 0))"
      "console s' = console s @ [ev]" "record_event_name ev = Some (name (new_path r))"
    by blast
  from Cons.IH [of s' "k + (if is_restored ev then 1 else 0)"] obtain evs where
    ih: "console (fst (undo_loop rs s' (k + (if is_restored ev then 1 else 0)))) = console s' @ evs"
      "map record_event_name evs = map (\<lambda>r. Some (name (new_path r))) rs"
      "snd (undo_loop rs s' (k + (if is_restored ev then 1 else 0)))
         = k + (if is_restored ev then 1 else 0) + length (filter is_restored evs)"
    by blast
  show ?case
    by (rule exI [of _ "ev # evs"]) (simp add: st ih del: undo_loop.simps)
qed

lemma remove_empty_events:
  "\<exists>evs. console (snd (remove_empty items s)) = console s @ evs
      \<and> (\<forall>ev \<in> set evs. \<exists>n. ev = RemovedFolder n)"
proof (induction items arbitrary: s)
  case Nil
  show ?case by simp
next
  case (Cons item items)
  let ?s' = "print (RemovedFolder (name item)) (s\<lparr>disk := case rmdir (disk s) item of Inr fs' \<Rightarrow> fs'\<rparr>)"
  from Cons.IH [of s] obtain evs where a: "console (snd (remove_empty items s)) = console s @ evs"
    "\<forall>ev \<in> set evs. \<exists>n. ev = RemovedFolder n" by blast
  have b: "\<exists>evs. console (snd (remove_empty items (print (RemovedFolder (name item)) (s\<lparr>disk := fs'\<rparr>))))
              = console s @ evs \<and> (\<forall>ev \<in> set evs. \<exists>n. ev = RemovedFolder n)" for fs'
  proof -
    from Cons.IH [of "print (RemovedFolder (name item)) (s\<lparr>disk := fs'\<rparr>)"] obtain evs' where
      "console (snd (remove_empty items (print (RemovedFolder (name item)) (s\<lparr>disk := fs'\<rparr>))))
         = console (print (RemovedFolder (name item)) (s\<lparr>disk := fs'\<rparr>)) @ evs'"
      "\<forall>ev \<in> set evs'. \<exists>n. ev = RemovedFolder n" by blast
    then show ?thesis
      by (intro exI [of _ "RemovedFolder (name item) # evs'"]) (simp add: print_def)
  qed
  have c: "\<exists>evs. console s = console s @ evs \<and> (\<forall>ev \<in> set evs. \<exists>n. ev = RemovedFolder n)"
    by (rule exI [of _ "[]"]) simp
  show ?case
    using a b c by (auto split: sum.splits simp del: ex_simps)
qed

lemma unlink_removes: "unlink fs p = Inr fs' \<Longrightarrow> \<not> path_exists fs' p"
  by (auto simp: unlink_def path_exists_def lookup_def delete_conv'
      split: option.splits node.splits if_splits)

lemma unlink_succeeds_iff:
  "(\<exists>fs'. unlink fs p = Inr fs') \<longleftrightarrow> (\<exists>c. lookup fs p = Some (File c)) \<and> Unlink p \<notin> set (denied fs)"
  by (auto simp: unlink_def split: option.splits node.splits)

lemma read_file_exists: "read_file fs p = Inr c \<Longrightarrow> path_exists fs p"
  by (auto simp: read_file_def path_exists_def split: option.splits node.splits)

lemma undo_organization_unfold:
  assumes "read_file (disk st) (log_file dir) = Inr (LogJson stamp ops)" "ops \<noteq> []"
  shows "undo_organization dir st =
     (let restored = undo_loop (rev ops) (print (Undoing (length ops) stamp) st) 0;
          st1 = fst restored;
          success_count = snd restored
      in case iterdir (disk st1) dir of
           Inl e \<Rightarrow> (Inl e, st1)
         | Inr items \<Rightarrow>
             (let cleaned = remove_empty items st1; st2 = snd cleaned
              in case fst cleaned of
                   Inl e \<Rightarrow> (Inl e, st2)
                 | Inr u \<Rightarrow>
                     (case unlink (disk st2) (log_file dir) of
                        Inr fs' \<Rightarrow>
                          (Inr (), print (UndoComplete success_count) (st2\<lparr>disk := fs'\<rparr>))
                      | Inl e \<Rightarrow> (Inr (), print (LogDeleteWarning e) st2))))"
  using assms read_file_exists [OF assms(1)]
  by (simp add: undo_organization_def)

text \<open>
  Claim C8 at a failing input, the one of claim C1: the folder holds a regular file named
  \<^verbatim>\<open>Images\<close> and, listed after it, \<^verbatim>\<open>photo.jpg\<close>; a live run, then the undo of its
  log.  The two records are handled last first and both are printed as restored, and the
  closing message counts two restored files; but only \<^verbatim>\<open>photo.jpg\<close> is at its original
  path again: at the original path of the other file there is the folder the run created,
  and the file is inside it, at \<^verbatim>\<open>Images/Images\<close>.
\<close>

theorem undo_counts_misplaced_file_as_restored:
  "map old_path (operations (snd (run live (fresh fs_images))))
     = [downloads @ [''Images''], downloads @ [''photo.jpg'']]
   \<and> console (snd (undo_organization downloads (fresh (disk (snd (run live (fresh fs_images)))))))
       = [Undoing 2 2,
          Restored ''photo.jpg'' (downloads @ [''photo.jpg'']),
          Restored ''Images'' (downloads @ [''Images'']),
          RemovedFolder ''Others'',
          UndoComplete 2]
   \<and> lookup (disk (snd (undo_organization downloads (fresh (disk (snd (run live (fresh fs_images))))))))
        (downloads @ [''photo.jpg'']) = lookup fs_images (downloads @ [''photo.jpg''])
   \<and> lookup (disk (snd (undo_organization downloads (fresh (disk (snd (run live (fresh fs_images))))))))
        (downloads @ [''Images'']) \<noteq> lookup fs_images (downloads @ [''Images''])
   \<and> length (filter (\<lambda>r. lookup (disk (snd (undo_organization downloads
                                (fresh (disk (snd (run live (fresh fs_images)))))))) (old_path r)
                          = lookup fs_images (old_path r))
                (operations (snd (run live (fresh fs_images))))) = 1"
  by code_simp

text \<open>
  Claim C9: with a log of a non-empty operation list, once the restore loop and the pass
  that removes empty folders have completed (the listing of the root and the pass raise
  nothing), \<^verbatim>\<open>undo_organization\<close> returns normally and has tried to delete the log,
  whatever the restore loop skipped or failed to restore: either the deletion succeeded,
  the log path no longer exists and the closing message is printed, or the deletion
  raised and the warning is printed with the filesystem as the two passes left it.  The
  deletion succeeds exactly when the log path is still a file and the platform does not
  refuse to delete it.
\<close>

theorem undo_deletes_log:
  assumes log: "read_file (disk st) (log_file dir) = Inr (LogJson stamp ops)" and ne: "ops \<noteq> []"
    and listed: "iterdir (disk (after_restore st stamp ops)) dir = Inr items"
    and cleaned: "fst (remove_empty items (after_restore st stamp ops)) = Inr ()"
  shows "fst (undo_organization dir st) = Inr ()
       \<and> (case unlink (disk (after_cleanup items (after_restore st stamp ops))) (log_file dir) of
            Inr fs' \<Rightarrow>
              disk (snd (undo_organization dir st)) = fs'
              \<and> \<not> path_exists (disk (snd (undo_organization dir st))) (log_file dir)
              \<and> (\<exists>k. console (snd (undo_organization dir st))
                        = console (after_cleanup items (after_restore st stamp ops)) @ [UndoComplete k])
          | Inl e \<Rightarrow>
              snd (undo_organization dir st)
                = print (LogDeleteWarning e) (after_cleanup items (after_restore st stamp ops)))
       \<and> ((\<exists>fs'. unlink (disk (after_cleanup items (after_restore st stamp ops))) (log_file dir) = Inr fs')
            \<longleftrightarrow> (\<exists>c. lookup (disk (after_cleanup items (after_restore st stamp ops))) (log_file dir)
                        = Some (File c))
                \<and> Unlink (log_file dir) \<notin> set (denied (disk (after_cleanup items (after_restore st stamp ops)))))"
proof -
  note u = undo_organization_unfold [OF log ne]
  let ?st2 = "after_cleanup items (after_restore st stamp ops)"
  show ?thesis
  proof (cases "unlink (disk ?st2) (log_file dir)")
    case (Inl e)
    with listed cleaned show ?thesis
      using unlink_succeeds_iff [of "disk ?st2" "log_file dir"]
      by (simp add: u Let_def after_restore_def after_cleanup_def)
  next
    case (Inr fs')
    with listed cleaned unlink_removes [OF Inr] show ?thesis
      using unlink_succeeds_iff [of "disk ?st2" "log_file dir"]
      by (simp add: u Let_def after_restore_def after_cleanup_def print_def)
  qed
qed

theorem undo_deletes_log_witness:
  "read_file (disk (fresh fs_logged)) (log_file downloads) = Inr (LogJson 7 logged)
   \<and> logged \<noteq> []
   \<and> RestoreError ''c.txt'' PermissionError \<in> set (console (snd (undo_organization downloads (fresh fs_logged))))
   \<and> Skipped ''a.txt'' \<in> set (console (snd (undo_organization downloads (fresh fs_logged))))
   \<and> fst (undo_organization downloads (fresh fs_logged)) = Inr ()
   \<and> \<not> path_exists (disk (snd (undo_organization downloads (fresh fs_logged)))) (log_file downloads)
   \<and> fst (undo_organization downloads (fresh fs_logged_kept)) = Inr ()
   \<and> snd (undo_organization downloads (fresh fs_logged_kept))
       = print (LogDeleteWarning PermissionError)
           (after_cleanup (projr (iterdir (disk (after_restore (fresh fs_logged_kept) 7 logged)) downloads))
              (after_restore (fresh fs_logged_kept) 7 logged))"
proof -
  let ?st = "fresh fs_logged" and ?sk = "fresh fs_logged_kept"
  let ?items = "projr (iterdir (disk (after_restore ?st 7 logged)) downloads)"
  let ?itemsk = "projr (iterdir (disk (after_restore ?sk 7 logged)) downloads)"
  have a: "read_file (disk ?st) (log_file downloads) = Inr (LogJson 7 logged)"
    "read_file (disk ?sk) (log_file downloads) = Inr (LogJson 7 logged)"
    by code_simp+
  have b: "logged \<noteq> []" by (simp add: logged_def)
  have l: "iterdir (disk (after_restore ?st 7 logged)) downloads = Inr ?items"
    "iterdir (disk (after_restore ?sk 7 logged)) downloads = Inr ?itemsk"
    by code_simp+
  have c: "fst (remove_empty ?items (after_restore ?st 7 logged)) = Inr ()"
    "fst (remove_empty ?itemsk (after_restore ?sk 7 logged)) = Inr ()"
    by code_simp+
  have "lookup (disk (after_cleanup ?items (after_restore ?st 7 logged))) (log_file downloads)
                 = Some (File (LogJson 7 logged))"
    by code_simp
  then have u: "\<exists>c. lookup (disk (after_cleanup ?items (after_restore ?st 7 logged))) (log_file downloads)
                 = Some (File c)"
    by blast
  have u': "Unlink (log_file downloads) \<notin> set (denied (disk (after_cleanup ?items (after_restore ?st 7 logged))))"
    by code_simp
  have uk: "unlink (disk (after_cleanup ?itemsk (after_restore ?sk 7 logged))) (log_file downloads)
      = Inl PermissionError"
    by code_simp
  have e: "RestoreError ''c.txt'' PermissionError \<in> set (console (snd (undo_organization downloads ?st)))"
    "Skipped ''a.txt'' \<in> set (console (snd (undo_organization downloads ?st)))"
    by code_simp+
  note t = undo_deletes_log [OF a(1) b l(1) c(1)]
  from t u u' obtain fs' where f: "unlink (disk (after_cleanup ?items (after_restore ?st 7 logged)))
      (log_file downloads) = Inr fs'" by blast
  from t have 1: "fst (undo_organization downloads ?st) = Inr ()" by blast
  from t f have 2: "\<not> path_exists (disk (snd (undo_organization downloads ?st))) (log_file downloads)"
    by auto
  note tk = undo_deletes_log [OF a(2) b l(2) c(2)]
  from tk have 3: "fst (undo_organization downloads ?sk) = Inr ()" by blast
  from tk uk have 4: "snd (undo_organization downloads ?sk)
       = print (LogDeleteWarning PermissionError) (after_cleanup ?itemsk (after_restore ?sk 7 logged))"
    by auto
  from a(1) b e 1 2 3 4 show ?thesis by blast
qed

section \<open>Dry runs\<close>

lemma organize_file_dry:
  "dry_run cfg \<Longrightarrow>
   organize_file cfg st p =
     (Inr True, print (DryRun (fst (intended cfg (disk st) p)) (snd (intended cfg (disk st) p))) st)"
  unfolding organize_file_def intended_def destination_def category_path_def Let_def
  by (simp split: option.splits)

lemma frame_step:
  fixes f g :: "state \<Rightarrow> 'a \<times> state"
  assumes "\<And>s. disk s = disk st \<Longrightarrow> f s = g s"
    and "\<forall>s. disk s = disk st \<longrightarrow> g s = (fst (g st), s\<lparr>console := console s @ evs\<rparr>)"
  shows "\<forall>s. disk s = disk st \<longrightarrow> f s = (fst (f st), s\<lparr>console := console s @ evs\<rparr>)"
proof (intro allI impI)
  fix s :: state assume s: "disk s = disk st"
  have "f s = g s" using s by (rule assms(1))
  moreover have "f st = g st" by (rule assms(1)) simp
  moreover have "g s = (fst (g st), s\<lparr>console := console s @ evs\<rparr>)" using assms(2) s by blast
  ultimately show "f s = (fst (f st), s\<lparr>console := console s @ evs\<rparr>)" by (simp only:)
qed

lemma dry_frame:
  "dry_run cfg \<longrightarrow>
     (\<exists>evs. \<forall>s. disk s = disk st \<longrightarrow>
        organize_directory cfg s d
          = (fst (organize_directory cfg st d), s\<lparr>console := console s @ evs\<rparr>))"
  "dry_run cfg \<longrightarrow>
     (\<exists>evs. \<forall>s. disk s = disk st \<longrightarrow>
        organize_items cfg s items n
          = (fst (organize_items cfg st items n), s\<lparr>console := console s @ evs\<rparr>))"
proof (induction cfg st d and cfg st items n rule: organize_directory_organize_items.induct)
  case (1 cfg st current_dir)
  show ?case
  proof
    assume dry: "dry_run cfg"
    show "\<exists>evs. \<forall>s. disk s = disk st \<longrightarrow>
        organize_directory cfg s current_dir
          = (fst (organize_directory cfg st current_dir), s\<lparr>console := console s @ evs\<rparr>)"
    proof (cases "iterdir (disk st) current_dir")
      case (Inl e)
      show ?thesis
      proof (cases "e = PermissionError")
        case True
        with Inl show ?thesis
          by (intro exI [of _ "[PermissionDenied current_dir]"])
             (simp add: organize_directory.simps print_def)
      next
        case False
        with Inl show ?thesis
          by (intro exI [of _ "[]"]) (simp add: organize_directory.simps)
      qed
    next
      case (Inr items)
      from "1.IH" [OF Inr] dry obtain evs where
        e: "\<forall>s. disk s = disk st \<longrightarrow>
           organize_items cfg s items 0
             = (fst (organize_items cfg st items 0), s\<lparr>console := console s @ evs\<rparr>)"
        by blast
      have "organize_directory cfg s current_dir = organize_items cfg s items 0"
        if "disk s = disk st" for s
        using that Inr by (simp add: organize_directory.simps)
      from frame_step [of st "\<lambda>s. organize_directory cfg s current_dir"
          "\<lambda>s. organize_items cfg s items 0" evs, OF this e]
      show ?thesis by blast
    qed
  qed
next
  case (2 cfg st files_processed)
  show ?case by (intro impI exI [of _ "[]"]) simp
next
  case (3 cfg st item items n)
  show ?case
  proof
    assume dry: "dry_run cfg"
    let ?goal = "\<exists>evs. \<forall>s. disk s = disk st \<longrightarrow>
        organize_items cfg s (item # items) n
          = (fst (organize_items cfg st (item # items) n), s\<lparr>console := console s @ evs\<rparr>)"
    consider (c_skip) "is_dir (disk st) item"
        "parent item = directory cfg \<and> name item \<in> set (map fst (categories cfg))"
      | (c_enter) "is_dir (disk st) item"
        "\<not> (parent item = directory cfg \<and> name item \<in> set (map fst (categories cfg)))"
        "recursive cfg \<and> parent item = directory cfg"
      | (c_pass) "is_dir (disk st) item"
        "\<not> (parent item = directory cfg \<and> name item \<in> set (map fst (categories cfg)))"
        "\<not> (recursive cfg \<and> parent item = directory cfg)"
      | (c_ignored) "\<not> is_dir (disk st) item" "should_ignore cfg item"
      | (c_file) "\<not> is_dir (disk st) item" "\<not> should_ignore cfg item"
      by blast
    then show ?goal
    proof cases
      case c_skip
      from "3.IH"(1) [OF c_skip] dry obtain evs where
        e: "\<forall>s. disk s = disk st \<longrightarrow> organize_items cfg s items n
             = (fst (organize_items cfg st items n), s\<lparr>console := console s @ evs\<rparr>)"
        by blast
      have "organize_items cfg s (item # items) n = organize_items cfg s items n"
        if "disk s = disk st" for s
        using that c_skip by simp
      from frame_step [of st "\<lambda>s. organize_items cfg s (item # items) n"
          "\<lambda>s. organize_items cfg s items n" evs, OF this e]
      show ?thesis by blast
    next
      case c_pass
      from "3.IH"(4) [OF c_pass] dry obtain evs where
        e: "\<forall>s. disk s = disk st \<longrightarrow> organize_items cfg s items n
             = (fst (organize_items cfg st items n), s\<lparr>console := console s @ evs\<rparr>)"
        by blast
      have "organize_items cfg s (item # items) n = organize_items cfg s items n"
        if "disk s = disk st" for s
        using that c_pass by auto
      from frame_step [of st "\<lambda>s. organize_items cfg s (item # items) n"
          "\<lambda>s. organize_items cfg s items n" evs, OF this e]
      show ?thesis by blast
    next
      case c_ignored
      from "3.IH"(5) [OF c_ignored] dry obtain evs where
        e: "\<forall>s. disk s = disk st \<longrightarrow> organize_items cfg s items n
             = (fst (organize_items cfg st items n), s\<lparr>console := console s @ evs\<rparr>)"
        by blast
      have "organize_items cfg s (item # items) n = organize_items cfg s items n"
        if "disk s = disk st" for s
        using that c_ignored by simp
      from frame_step [of st "\<lambda>s. organize_items cfg s (item # items) n"
          "\<lambda>s. organize_items cfg s items n" evs, OF this e]
      show ?thesis by blast
    next
      case c_enter
      let ?e = "Entering (name item)"
      let ?r = "organize_directory cfg (print ?e st) item"
      from "3.IH"(2) [OF c_enter] dry obtain evs1 where
        e1: "\<forall>s. disk s = disk (print ?e st) \<longrightarrow> organize_directory cfg s item
             = (fst ?r, s\<lparr>console := console s @ evs1\<rparr>)"
        by blast
      have d1: "disk (print ?e st) = disk st" by (simp add: print_def)
      from e1 have sr: "snd ?r = (print ?e st)\<lparr>console := console (print ?e st) @ evs1\<rparr>"
        by (metis snd_conv)
      have dr: "disk (snd ?r) = disk st"
        by (simp only: sr) (simp add: print_def)
      show ?thesis
      proof (cases "fst ?r")
        case (Inl e)
        have "\<forall>s. disk s = disk st \<longrightarrow>
          organize_items cfg s (item # items) n
            = (fst (organize_items cfg st (item # items) n), s\<lparr>console := console s @ ?e # evs1\<rparr>)"
        proof (intro allI impI)
          fix s :: state assume s: "disk s = disk st"
          have a: "organize_directory cfg (print ?e s) item
              = (fst ?r, (print ?e s)\<lparr>console := console (print ?e s) @ evs1\<rparr>)"
          proof -
            from s have "disk (print ?e s) = disk (print ?e st)" by (simp add: print_def)
            with e1 show ?thesis by blast
          qed
          have b: "organize_items cfg st (item # items) n = (Inl e, snd ?r)"
            using c_enter Inl by (simp add: Let_def)
          have "organize_items cfg s (item # items) n
              = (Inl e, (print ?e s)\<lparr>console := console (print ?e s) @ evs1\<rparr>)"
            using c_enter s Inl by (simp add: Let_def a)
          then show "organize_items cfg s (item # items) n
            = (fst (organize_items cfg st (item # items) n), s\<lparr>console := console s @ ?e # evs1\<rparr>)"
            by (simp add: b print_def del: organize_items.simps)
        qed
        then show ?thesis by blast
      next
        case (Inr k)
        from "3.IH"(3) [OF c_enter refl Inr] dry obtain evs2 where
          e2: "\<forall>s. disk s = disk (snd ?r) \<longrightarrow> organize_items cfg s items (n + k)
             = (fst (organize_items cfg (snd ?r) items (n + k)), s\<lparr>console := console s @ evs2\<rparr>)"
          by blast
        have "\<forall>s. disk s = disk st \<longrightarrow>
          organize_items cfg s (item # items) n
            = (fst (organize_items cfg st (item # items) n),
               s\<lparr>console := console s @ ?e # evs1 @ evs2\<rparr>)"
        proof (intro allI impI)
          fix s :: state assume s: "disk s = disk st"
          have a: "organize_directory cfg (print ?e s) item
              = (fst ?r, (print ?e s)\<lparr>console := console (print ?e s) @ evs1\<rparr>)"
          proof -
            from s have "disk (print ?e s) = disk (print ?e st)" by (simp add: print_def)
            with e1 show ?thesis by blast
          qed
          have "disk ((print ?e s)\<lparr>console := console (print ?e s) @ evs1\<rparr>) = disk (snd ?r)"
            using s dr by (simp add: print_def)
          with e2 have b: "organize_items cfg ((print ?e s)\<lparr>console := console (print ?e s) @ evs1\<rparr>) items (n + k)
             = (fst (organize_items cfg (snd ?r) items (n + k)),
                ((print ?e s)\<lparr>console := console (print ?e s) @ evs1\<rparr>)
                  \<lparr>console := console ((print ?e s)\<lparr>console := console (print ?e s) @ evs1\<rparr>) @ evs2\<rparr>)"
            by blast
          have c: "organize_items cfg st (item # items) n = organize_items cfg (snd ?r) items (n + k)"
            using c_enter Inr by (simp add: Let_def)
          have "organize_items cfg s (item # items) n
              = organize_items cfg ((print ?e s)\<lparr>console := console (print ?e s) @ evs1\<rparr>) items (n + k)"
            using c_enter s Inr by (simp add: Let_def a)
          with b c show "organize_items cfg s (item # items) n
            = (fst (organize_items cfg st (item # items) n),
               s\<lparr>console := console s @ ?e # evs1 @ evs2\<rparr>)"
            by (simp add: print_def del: organize_items.simps)
        qed
        then show ?thesis by blast
      qed
    next
      case c_file
      let ?ev = "DryRun (fst (intended cfg (disk st) item)) (snd (intended cfg (disk st) item))"
      let ?r = "organize_file cfg st item"
      have r: "?r = (Inr True, print ?ev st)"
        using dry by (rule organize_file_dry)
      then have fr: "fst ?r = Inr True" by simp
      have sr: "snd ?r = print ?ev st" by (simp only: r snd_conv)
      from "3.IH"(6) [OF c_file refl fr] dry have
        "\<exists>evs. \<forall>s. disk s = disk (snd ?r) \<longrightarrow>
           organize_items cfg s items (if True then n + 1 else n)
             = (fst (organize_items cfg (snd ?r) items (if True then n + 1 else n)),
                s\<lparr>console := console s @ evs\<rparr>)"
        by blast
      then obtain evs where
        e2: "\<forall>s. disk s = disk (print ?ev st) \<longrightarrow> organize_items cfg s items (n + 1)
             = (fst (organize_items cfg (print ?ev st) items (n + 1)), s\<lparr>console := console s @ evs\<rparr>)"
        unfolding sr if_True by blast
      have "\<forall>s. disk s = disk st \<longrightarrow>
          organize_items cfg s (item # items) n
            = (fst (organize_items cfg st (item # items) n), s\<lparr>console := console s @ ?ev # evs\<rparr>)"
      proof (intro allI impI)
        fix s :: state assume s: "disk s = disk st"
        have a: "organize_file cfg s item = (Inr True, print ?ev s)"
          using organize_file_dry [OF dry, of s item] s by simp
        have "disk (print ?ev s) = disk (print ?ev st)" using s by (simp add: print_def)
        with e2 have b: "organize_items cfg (print ?ev s) items (n + 1)
             = (fst (organize_items cfg (print ?ev st) items (n + 1)),
                (print ?ev s)\<lparr>console := console (print ?ev s) @ evs\<rparr>)" by blast
        have c: "organize_items cfg st (item # items) n = organize_items cfg (print ?ev st) items (n + 1)"
          using c_file by (simp add: Let_def r)
        have "organize_items cfg s (item # items) n = organize_items cfg (print ?ev s) items (n + 1)"
          using c_file s by (simp add: Let_def a)
        with b c show "organize_items cfg s (item # items) n
            = (fst (organize_items cfg st (item # items) n), s\<lparr>console := console s @ ?ev # evs\<rparr>)"
          by (simp add: print_def del: organize_items.simps)
      qed
      then show ?thesis by blast
    qed
  qed
qed

lemma run_dry_frame:
  assumes dry: "dry_run cfg"
  shows "\<exists>evs. \<forall>s. disk s = disk st \<longrightarrow>
           run cfg s = (fst (run cfg st), s\<lparr>console := console s @ evs\<rparr>)"
proof (cases "path_exists (disk st) (directory cfg) \<and> is_dir (disk st) (directory cfg)")
  case False
  then consider "\<not> path_exists (disk st) (directory cfg)"
    | "path_exists (disk st) (directory cfg)" "\<not> is_dir (disk st) (directory cfg)" by blast
  then show ?thesis
  proof cases
    case 1
    then show ?thesis by (intro exI [of _ "[NoDirectory]"]) (simp add: run_def print_def)
  next
    case 2
    then show ?thesis by (intro exI [of _ "[NotDirectory]"]) (simp add: run_def print_def)
  qed
next
  case True
  let ?r = "organize_directory cfg (print Banner st) (directory cfg)"
  from dry_frame(1) [of cfg "print Banner st" "directory cfg"] dry obtain evs where
    e: "\<forall>s. disk s = disk (print Banner st) \<longrightarrow>
        organize_directory cfg s (directory cfg) = (fst ?r, s\<lparr>console := console s @ evs\<rparr>)"
    by blast
  have o: "organize_directory cfg (print Banner s) (directory cfg)
      = (fst ?r, (print Banner s)\<lparr>console := console (print Banner s) @ evs\<rparr>)"
    if "disk s = disk st" for s
  proof -
    from that have "disk (print Banner s) = disk (print Banner st)" by (simp add: print_def)
    with e show ?thesis by blast
  qed
  show ?thesis
  proof (cases "fst ?r")
    case (Inl x)
    have "run cfg s = (Inl x, s\<lparr>console := console s @ Banner # evs\<rparr>)" if "disk s = disk st" for s
      using True that Inl by (simp add: run_def Let_def o [OF that]) (simp add: print_def)
    then show ?thesis by (intro exI [of _ "Banner # evs"]) simp
  next
    case (Inr k)
    let ?fin = "if k = 0 then NoFiles else Summary (dry_run cfg) k"
    have "run cfg s = (Inr (), s\<lparr>console := console s @ Banner # evs @ [?fin]\<rparr>)"
      if "disk s = disk st" for s
      using True that Inr dry by (simp add: run_def Let_def o [OF that]) (simp add: print_def)
    then show ?thesis by (intro exI [of _ "Banner # evs @ [?fin]"]) simp
  qed
qed

text \<open>
  Claim C6: in a dry run nothing is changed on the filesystem and no operation is
  recorded, by \<^verbatim>\<open>run\<close>, by the traversal of any directory and by \<^verbatim>\<open>organize_file\<close>,
  which only prints the intended pair of paths (so no category folder is created);
  \<^verbatim>\<open>save_log\<close> writes nothing.  What a dry run returns and prints depends on the
  filesystem only (not on the clock or on recorded operations), so a second dry run, in a
  new process on the filesystem the first one left, returns and prints the same.
\<close>

theorem dry_run_changes_nothing:
  assumes dry: "dry_run cfg"
  shows "disk (snd (run cfg st)) = disk st
       \<and> operations (snd (run cfg st)) = operations st
       \<and> disk (snd (organize_directory cfg st d)) = disk st
       \<and> operations (snd (organize_directory cfg st d)) = operations st
       \<and> organize_file cfg st p
           = (Inr True,
              st\<lparr>console := console st
                   @ [DryRun (fst (intended cfg (disk st) p)) (snd (intended cfg (disk st) p))]\<rparr>)
       \<and> save_log cfg st = st
       \<and> (disk s = disk st \<and> console s = console st \<longrightarrow>
            fst (run cfg s) = fst (run cfg st)
            \<and> console (snd (run cfg s)) = console (snd (run cfg st)))
       \<and> fst (run cfg (fresh (disk (snd (run cfg (fresh fs)))))) = fst (run cfg (fresh fs))
       \<and> console (snd (run cfg (fresh (disk (snd (run cfg (fresh fs)))))))
           = console (snd (run cfg (fresh fs)))"
proof -
  from run_dry_frame [OF dry, of st] obtain evs where
    r: "\<forall>s. disk s = disk st \<longrightarrow> run cfg s = (fst (run cfg st), s\<lparr>console := console s @ evs\<rparr>)"
    by blast
  then have rs: "run cfg st = (fst (run cfg st), st\<lparr>console := console st @ evs\<rparr>)" by blast
  have 1: "disk (snd (run cfg st)) = disk st" "operations (snd (run cfg st)) = operations st"
    "console (snd (run cfg st)) = console st @ evs"
    by (subst rs, simp)+
  from dry_frame(1) [of cfg st d] dry obtain evs' where
    "\<forall>s. disk s = disk st \<longrightarrow> organize_directory cfg s d
        = (fst (organize_directory cfg st d), s\<lparr>console := console s @ evs'\<rparr>)"
    by blast
  then have os: "organize_directory cfg st d
        = (fst (organize_directory cfg st d), st\<lparr>console := console st @ evs'\<rparr>)" by blast
  have 2: "disk (snd (organize_directory cfg st d)) = disk st"
    "operations (snd (organize_directory cfg st d)) = operations st"
    by (subst os, simp)+
  have 3: "organize_file cfg st p
           = (Inr True,
              st\<lparr>console := console st
                   @ [DryRun (fst (intended cfg (disk st) p)) (snd (intended cfg (disk st) p))]\<rparr>)"
    using organize_file_dry [OF dry, of st p] by (simp add: print_def)
  have 4: "save_log cfg st = st" using dry by (simp add: save_log_def)
  have 5: "fst (run cfg s) = fst (run cfg st) \<and> console (snd (run cfg s)) = console (snd (run cfg st))"
    if "disk s = disk st \<and> console s = console st"
  proof -
    from r that have "run cfg s = (fst (run cfg st), s\<lparr>console := console s @ evs\<rparr>)" by blast
    with that 1(3) show ?thesis by simp
  qed
  from run_dry_frame [OF dry, of "fresh fs"] obtain evf where
    rf: "\<forall>s. disk s = disk (fresh fs) \<longrightarrow>
          run cfg s = (fst (run cfg (fresh fs)), s\<lparr>console := console s @ evf\<rparr>)"
    by blast
  then have "run cfg (fresh fs) = (fst (run cfg (fresh fs)), (fresh fs)\<lparr>console := console (fresh fs) @ evf\<rparr>)"
    by blast
  then have "snd (run cfg (fresh fs)) = (fresh fs)\<lparr>console := console (fresh fs) @ evf\<rparr>"
    by (metis snd_conv)
  then have df: "disk (snd (run cfg (fresh fs))) = fs" by (simp add: fresh_def)
  have 6: "fst (run cfg (fresh (disk (snd (run cfg (fresh fs)))))) = fst (run cfg (fresh fs))"
    "console (snd (run cfg (fresh (disk (snd (run cfg (fresh fs)))))))
           = console (snd (run cfg (fresh fs)))"
    by (simp_all only: df)
  from 1 2 3 4 5 6 show ?thesis by blast
qed

theorem dry_run_changes_nothing_witness:
  "dry_run dry_recursive
   \<and> disk (snd (run dry_recursive (fresh fs_nested))) = fs_nested
   \<and> operations (snd (run dry_recursive (fresh fs_nested))) = []
   \<and> console (snd (run dry_recursive (fresh fs_nested)))
       = [Banner, Entering ''sub'', DryRun [''sub'', ''old.mp3''] [''Audio'', ''old.mp3''],
          Summary True 1]
   \<and> console (snd (run dry_recursive (fresh (disk (snd (run dry_recursive (fresh fs_nested)))))))
       = [Banner, Entering ''sub'', DryRun [''sub'', ''old.mp3''] [''Audio'', ''old.mp3''],
          Summary True 1]"
proof -
  have d: "dry_run dry_recursive" by (simp add: dry_recursive_def FileOrganizer_def)
  have c: "console (snd (run dry_recursive (fresh fs_nested)))
       = [Banner, Entering ''sub'', DryRun [''sub'', ''old.mp3''] [''Audio'', ''old.mp3''],
          Summary True 1]"
    by code_simp
  note t = dry_run_changes_nothing [OF d, of "fresh fs_nested" _ _ _ fs_nested]
  from t have 1: "disk (snd (run dry_recursive (fresh fs_nested))) = fs_nested"
    "operations (snd (run dry_recursive (fresh fs_nested))) = []"
    by (simp_all add: fresh_def)
  from t have "console (snd (run dry_recursive (fresh (disk (snd (run dry_recursive (fresh fs_nested)))))))
       = console (snd (run dry_recursive (fresh fs_nested)))" by blast
  with d c 1 show ?thesis by simp
qed

end
